theory Spec2Isabelle
  imports Complex_Main "HOL-Library.Char_ord"
begin

section \<open>Go values used by the timer\<close>

text \<open>
  \<^verbatim>\<open>time.Duration\<close> is an \<^verbatim>\<open>int64\<close> count of nanoseconds. Durations are
  integers here, and every arithmetic result is brought back into the 64-bit range by
  \<open>wrap64\<close>, as the machine does.
\<close>

type_synonym Duration = int

definition wrap64 :: "int \<Rightarrow> int" where
  "wrap64 x = (x + 2 ^ 63) mod 2 ^ 64 - 2 ^ 63"

definition Millisecond :: Duration where "Millisecond = 1000000"
definition Second :: Duration where "Second = 1000000000"
definition Minute :: Duration where "Minute = 60000000000"

text \<open>Go's integer division truncates towards zero.\<close>

definition quo :: "int \<Rightarrow> int \<Rightarrow> int" where
  "quo a b = (if (a < 0) = (b < 0) then \<bar>a\<bar> div \<bar>b\<bar> else - (\<bar>a\<bar> div \<bar>b\<bar>))"

text \<open>\<^verbatim>\<open>func (d Duration) Milliseconds() int64 { return int64(d) / 1e6 }\<close>\<close>

definition Milliseconds :: "Duration \<Rightarrow> int" where
  "Milliseconds d = quo d 1000000"

datatype panic = IndexOutOfRange | DivideByZero

text \<open>Indexing a slice panics out of range; integer division panics on a zero divisor.\<close>

definition go_index :: "'a list \<Rightarrow> int \<Rightarrow> panic + 'a" where
  "go_index xs i = (if 0 \<le> i \<and> i < int (length xs) then Inr (xs ! nat i) else Inl IndexOutOfRange)"

definition go_div :: "int \<Rightarrow> int \<Rightarrow> panic + int" where
  "go_div a b = (if b = 0 then Inl DivideByZero else Inr (wrap64 (quo a b)))"

section \<open>Messages and commands of the event loop\<close>

text \<open>
  The messages \<^verbatim>\<open>model.Update\<close> dispatches on. A tick carries the identifier and tag of
  the timer that sent it; a key message carries the key's name as \<^verbatim>\<open>String()\<close> gives it.
\<close>

datatype msg =
    TickMsg int int bool
  | WindowSizeMsg int int
  | StartStopMsg int bool
  | TimeoutMsg int
  | FrameMsg int int
  | KeyMsg string
  | OtherMsg

text \<open>
  A command is described by what it will deliver: \<open>Send\<close> a message at once, deliver one
  \<open>After\<close> a delay, stop the loop (\<open>Quit\<close>), or several of these.
\<close>

datatype cmd = NoCmd | Quit | Send msg | After Duration msg | Batch "cmd list"

text \<open>\<^verbatim>\<open>tea.Batch\<close> drops nil commands and does not wrap a single one.\<close>

definition tea_Batch :: "cmd list \<Rightarrow> cmd" where
  "tea_Batch cmds =
     (case filter (\<lambda>c. c \<noteq> NoCmd) cmds of [] \<Rightarrow> NoCmd | [c] \<Rightarrow> c | cs \<Rightarrow> Batch cs)"

section \<open>The countdown and progress components\<close>

text \<open>
  The countdown is the \<^verbatim>\<open>timer.Model\<close> of the bubbles library, which the program
  creates, reads (\<^verbatim>\<open>m.timer.Interval\<close>) and forwards messages to. Its behaviour is taken
  from the library: a tick it accepts subtracts the interval from the remaining time,
  asks for the next tick and, once nothing remains, sends the timeout message.
\<close>

record timer_Model =
  Timeout :: Duration
  Interval :: Duration
  timer_id :: int
  timer_tag :: int
  timer_running :: bool

definition Timedout :: "timer_Model \<Rightarrow> bool" where
  "Timedout t = (Timeout t \<le> 0)"

definition Running :: "timer_Model \<Rightarrow> bool" where
  "Running t = (if Timedout t \<or> \<not> timer_running t then False else True)"

definition timer_tick :: "timer_Model \<Rightarrow> cmd" where
  "timer_tick t = After (Interval t) (TickMsg (timer_id t) (timer_tag t) (Timedout t))"

definition timer_timedout :: "timer_Model \<Rightarrow> cmd" where
  "timer_timedout t = (if \<not> Timedout t then NoCmd else Send (TimeoutMsg (timer_id t)))"

definition timer_Start :: "timer_Model \<Rightarrow> cmd" where
  "timer_Start t = Send (StartStopMsg (timer_id t) True)"

definition timer_Update :: "timer_Model \<Rightarrow> msg \<Rightarrow> timer_Model \<times> cmd" where
  "timer_Update t m =
     (case m of
        StartStopMsg i r \<Rightarrow>
          if i \<noteq> 0 \<and> i \<noteq> timer_id t then (t, NoCmd)
          else (let t' = t\<lparr>timer_running := r\<rparr> in (t', timer_tick t'))
      | TickMsg i g _ \<Rightarrow>
          if \<not> Running t \<or> (i \<noteq> 0 \<and> i \<noteq> timer_id t) then (t, NoCmd)
          else if g > 0 \<and> g \<noteq> timer_tag t then (t, NoCmd)
          else (let t' = t\<lparr>Timeout := wrap64 (Timeout t - Interval t)\<rparr>
                in (t', tea_Batch [timer_tick t', timer_timedout t']))
      | _ \<Rightarrow> (t, NoCmd))"

text \<open>
  The environment a handler runs in: the wall clock read by \<^verbatim>\<open>time.Now()\<close>, the
  counter behind the timers' identifiers, and the package variable \<^verbatim>\<open>winHeight\<close>.
\<close>

record world =
  now :: int
  lastID :: int
  winHeight :: int

text \<open>
  \<^verbatim>\<open>timer.New(timeout, timer.WithInterval(interval))\<close>: a running timer with a fresh
  identifier.
\<close>

definition timer_New :: "Duration \<Rightarrow> Duration \<Rightarrow> world \<Rightarrow> timer_Model \<times> world" where
  "timer_New timeout interval w =
     (let i = wrap64 (lastID w + 1)
      in (\<lparr>Timeout = timeout, Interval = interval, timer_id = i, timer_tag = 0,
            timer_running = True\<rparr>,
          w\<lparr>lastID := i\<rparr>))"

text \<open>
  Of the progress bar the program sets the width and the target fraction. The fraction
  \<^verbatim>\<open>float64(pct)/100\<close> is kept as the exact quotient. \<^verbatim>\<open>SetPercent\<close> clamps its
  argument to the unit interval, bumps the tag and asks for the next animation frame.
  The animation itself belongs to the library and is a parameter of \<open>Update\<close> below:
  a frame handler gives the bar after a frame and whether another frame is wanted.
\<close>

record progress_Model =
  width :: int
  targetPercent :: rat
  progress_id :: int
  progress_tag :: int
  percentShown :: rat
  velocity :: rat

definition progress_nextFrame :: "progress_Model \<Rightarrow> cmd" where
  "progress_nextFrame p = After (quo Second 60) (FrameMsg (progress_id p) (progress_tag p))"

definition progress_SetPercent :: "progress_Model \<Rightarrow> rat \<Rightarrow> progress_Model \<times> cmd" where
  "progress_SetPercent p x =
     (let p' = p\<lparr>targetPercent := max 0 (min 1 x), progress_tag := wrap64 (progress_tag p + 1)\<rparr>
      in (p', progress_nextFrame p'))"

definition progress_SetWidth :: "progress_Model \<Rightarrow> int \<Rightarrow> progress_Model" where
  "progress_SetWidth p x = p\<lparr>width := x\<rparr>"

type_synonym frame_handler = "progress_Model \<Rightarrow> msg \<Rightarrow> progress_Model \<times> bool"

section \<open>The session and its event handler\<close>

record model =
  name :: string
  altscreen :: bool
  startTimeFormat :: string
  durations :: "Duration list"
  state :: int
  passed :: Duration
  start :: int
  timer :: timer_Model
  progress :: progress_Model
  quitting :: bool
  interrupting :: bool

definition padding :: int where "padding = 2"
definition maxWidth :: int where "maxWidth = 80"

definition quitKeys :: "string list" where "quitKeys = [''esc'', ''q'']"
definition intKeys :: "string list" where "intKeys = [''ctrl+c'']"

definition key_Matches :: "string \<Rightarrow> string list \<Rightarrow> bool" where
  "key_Matches k b = (k \<in> set b)"

definition timerInterval :: "Duration \<Rightarrow> Duration" where
  "timerInterval d = (if d < Minute then 100 * Millisecond else Second)"

definition Update :: "frame_handler \<Rightarrow> world \<Rightarrow> model \<Rightarrow> msg \<Rightarrow> panic + (model \<times> cmd \<times> world)" where
  "Update fh w m ms =
     (case ms of
        TickMsg _ _ _ \<Rightarrow>
          (let m1 = m\<lparr>passed := wrap64 (passed m + Interval (timer m))\<rparr>
           in case go_index (durations m1) (state m1) of
                Inl p \<Rightarrow> Inl p
              | Inr d \<Rightarrow>
                  (case go_div (wrap64 (Milliseconds (passed m1) * 100)) (Milliseconds d) of
                     Inl p \<Rightarrow> Inl p
                   | Inr pct \<Rightarrow>
                       (let (pr, c1) = progress_SetPercent (progress m1) (of_int pct / 100);
                            (tm, c2) = timer_Update (timer m1) ms
                        in Inr (m1\<lparr>timer := tm, progress := pr\<rparr>, tea_Batch [c1, c2], w))))
      | WindowSizeMsg wd ht \<Rightarrow>
          (let p1 = progress_SetWidth (progress m) (wrap64 (wd - padding * 2 - 4));
               w1 = w\<lparr>winHeight := ht\<rparr>;
               p2 = (if \<not> altscreen m \<and> width p1 > maxWidth
                     then progress_SetWidth p1 maxWidth else p1)
           in Inr (m\<lparr>progress := p2\<rparr>, NoCmd, w1))
      | StartStopMsg _ _ \<Rightarrow>
          (let (tm, c) = timer_Update (timer m) ms in Inr (m\<lparr>timer := tm\<rparr>, c, w))
      | TimeoutMsg _ \<Rightarrow>
          if state m = int (length (durations m)) - 1
          then Inr (m\<lparr>quitting := True\<rparr>, Quit, w)
          else
            (let m1 = m\<lparr>state := wrap64 (state m + 1)\<rparr>;
                 m2 = m1\<lparr>start := now w\<rparr>;
                 m3 = m2\<lparr>passed := 0\<rparr>
             in case go_index (durations m3) (state m3) of
                  Inl p \<Rightarrow> Inl p
                | Inr d \<Rightarrow>
                    (let interval = timerInterval d;
                         (tm, w1) = timer_New d interval w;
                         m4 = m3\<lparr>timer := tm\<rparr>
                     in Inr (m4, timer_Start (timer m4), w1)))
      | FrameMsg _ _ \<Rightarrow>
          (let (pr, again) = fh (progress m) ms
           in Inr (m\<lparr>progress := pr\<rparr>, (if again then progress_nextFrame pr else NoCmd), w))
      | KeyMsg k \<Rightarrow>
          if key_Matches k quitKeys then Inr (m\<lparr>quitting := True\<rparr>, Quit, w)
          else if key_Matches k intKeys then Inr (m\<lparr>interrupting := True\<rparr>, Quit, w)
          else Inr (m, NoCmd, w)
      | OtherMsg \<Rightarrow> Inr (m, NoCmd, w))"

section \<open>Tokenising the timer argument\<close>

text \<open>
  \<^verbatim>\<open>regexp.MustCompile("\\s*[\\s,-]\\s*").Split(s, -1)\<close>. The pattern is a sequence
  of character classes, each taken once or under a greedy star. Go's regexp returns the
  leftmost match and, among the matches starting there, the one a backtracking search
  finds first; \<open>re_match\<close> is that search and yields the length of the match.
  \<^verbatim>\<open>\s\<close> is the ASCII class \<^verbatim>\<open>[\t\n\f\r ]\<close>.
\<close>

datatype quantifier = Once | Star

type_synonym regex = "((char \<Rightarrow> bool) \<times> quantifier) list"

fun re_match :: "regex \<Rightarrow> string \<Rightarrow> nat option" where
  "re_match [] s = Some 0"
| "re_match ((cl, Once) # p) [] = None"
| "re_match ((cl, Once) # p) (c # cs) =
     (if cl c then map_option Suc (re_match p cs) else None)"
| "re_match ((cl, Star) # p) [] = re_match p []"
| "re_match ((cl, Star) # p) (c # cs) =
     (if cl c
      then (case re_match ((cl, Star) # p) cs of
              Some n \<Rightarrow> Some (Suc n)
            | None \<Rightarrow> re_match p (c # cs))
      else re_match p (c # cs))"

definition isSpace :: "char \<Rightarrow> bool" where
  "isSpace c = (c \<in> {CHR 0x09, CHR 0x0A, CHR 0x0C, CHR 0x0D, CHR '' ''})"

definition isSepChar :: "char \<Rightarrow> bool" where
  "isSepChar c = (isSpace c \<or> c = CHR '','' \<or> c = CHR ''-'')"

definition TIMER_ARG_SEP :: regex where
  "TIMER_ARG_SEP = [(isSpace, Star), (isSepChar, Once), (isSpace, Star)]"

text \<open>
  \<^verbatim>\<open>Split\<close> cuts the string at the successive matches, each search starting where the
  previous match ended, and keeps every piece, the last one included. \<open>acc\<close> holds the
  current piece in reverse. A match of this pattern is never empty, so the rules of
  \<^verbatim>\<open>Split\<close> for empty matches do not arise; the empty string gives one empty piece.
\<close>

function re_split :: "regex \<Rightarrow> string \<Rightarrow> string \<Rightarrow> string list" where
  "re_split p acc [] = [rev acc]"
| "re_split p acc (c # cs) =
     (case re_match p (c # cs) of
        Some (Suc n) \<Rightarrow> rev acc # re_split p [] (drop n cs)
      | _ \<Rightarrow> re_split p (c # acc) cs)"
  by pat_completeness auto
termination
  by (relation "measure (\<lambda>(p, acc, s). length s)") auto

definition splitTimerArgString :: "string \<Rightarrow> string list" where
  "splitTimerArgString s = re_split TIMER_ARG_SEP [] s"

section \<open>Recognising a bare number\<close>

text \<open>
  \<^verbatim>\<open>strconv.ParseFloat(s, 64)\<close> of the Go library, of which the program uses only
  whether it returns an error. It accepts the special values, decimal literals and
  hexadecimal literals (these need a \<^verbatim>\<open>p\<close> exponent), with underscores between
  digits, provided the whole string is consumed and the value does not round to
  infinity.
\<close>

definition isDigit :: "char \<Rightarrow> bool" where
  "isDigit c = (CHR ''0'' \<le> c \<and> c \<le> CHR ''9'')"

definition digitVal :: "char \<Rightarrow> int" where
  "digitVal c = of_char c - 48"

definition lowerc :: "char \<Rightarrow> char" where
  "lowerc c = (if CHR ''A'' \<le> c \<and> c \<le> CHR ''Z'' then char_of (of_char c + (32::nat)) else c)"

definition isHexLetter :: "char \<Rightarrow> bool" where
  "isHexLetter c = (CHR ''a'' \<le> lowerc c \<and> lowerc c \<le> CHR ''f'')"

definition hexVal :: "char \<Rightarrow> int" where
  "hexVal c = of_char (lowerc c) - 97 + 10"

fun commonPrefixLenIgnoreCase :: "string \<Rightarrow> string \<Rightarrow> nat" where
  "commonPrefixLenIgnoreCase (c # cs) (q # qs) =
     (if lowerc c \<noteq> q then 0 else Suc (commonPrefixLenIgnoreCase cs qs))"
| "commonPrefixLenIgnoreCase _ _ = 0"

text \<open>
  \<^verbatim>\<open>special\<close>: the length of a leading \<^verbatim>\<open>inf\<close>, \<^verbatim>\<open>infinity\<close> (with an optional
  sign) or \<^verbatim>\<open>nan\<close> (without one), in any letter case.
\<close>

definition special_inf :: "nat \<Rightarrow> string \<Rightarrow> nat option" where
  "special_inf nsign s =
     (let n = commonPrefixLenIgnoreCase s ''infinity'';
          n' = (if 3 < n \<and> n < 8 then 3 else n)
      in if n' = 3 \<or> n' = 8 then Some (nsign + n') else None)"

definition special :: "string \<Rightarrow> nat option" where
  "special s =
     (case s of
        [] \<Rightarrow> None
      | c # cs \<Rightarrow>
          if c = CHR ''+'' \<or> c = CHR ''-'' then special_inf 1 cs
          else if c = CHR ''i'' \<or> c = CHR ''I'' then special_inf 0 s
          else if c = CHR ''n'' \<or> c = CHR ''N''
               then (if commonPrefixLenIgnoreCase s ''nan'' = 3 then Some 3 else None)
          else None)"

text \<open>
  The mantissa loop of \<^verbatim>\<open>readFloat\<close>. Instead of the first 19 digits and a flag for
  the dropped ones, the state keeps the value of all the digits (\<open>mant\<close>) and the
  number of digits after the point (\<open>nfrac\<close>), from which the exact value of the literal
  is known.
\<close>

record mantissa =
  sawdot :: bool
  sawdigits :: bool
  underscores :: bool
  mant :: int
  nfrac :: nat

fun mantissa_loop :: "bool \<Rightarrow> mantissa \<Rightarrow> string \<Rightarrow> mantissa \<times> string" where
  "mantissa_loop hex st [] = (st, [])"
| "mantissa_loop hex st (c # cs) =
     (if c = CHR ''_'' then mantissa_loop hex (st\<lparr>underscores := True\<rparr>) cs
      else if c = CHR ''.'' then
        (if sawdot st then (st, c # cs) else mantissa_loop hex (st\<lparr>sawdot := True\<rparr>) cs)
      else if isDigit c then
        mantissa_loop hex
          (st\<lparr>sawdigits := True, mant := mant st * (if hex then 16 else 10) + digitVal c,
              nfrac := (if sawdot st then Suc (nfrac st) else nfrac st)\<rparr>) cs
      else if hex \<and> isHexLetter c then
        mantissa_loop hex
          (st\<lparr>sawdigits := True, mant := mant st * 16 + hexVal c,
              nfrac := (if sawdot st then Suc (nfrac st) else nfrac st)\<rparr>) cs
      else (st, c # cs))"

text \<open>The exponent's digits; the accumulated value stops growing once it reaches 10000.\<close>

fun exponent_loop :: "int \<Rightarrow> bool \<Rightarrow> string \<Rightarrow> int \<times> bool \<times> string" where
  "exponent_loop e us [] = (e, us, [])"
| "exponent_loop e us (c # cs) =
     (if c = CHR ''_'' then exponent_loop e True cs
      else if isDigit c then
        exponent_loop (if e < 10000 then e * 10 + digitVal c else e) us cs
      else (e, us, c # cs))"

text \<open>
  \<^verbatim>\<open>underscoreOK\<close>: an underscore must follow a digit or the base prefix and be
  followed by a digit. \<open>saw\<close> is the kind of the last character.
\<close>

datatype saw = SawStart | SawDigit | SawUnderscore | SawOther

fun underscore_loop :: "bool \<Rightarrow> saw \<Rightarrow> string \<Rightarrow> bool" where
  "underscore_loop hex sw [] = (sw \<noteq> SawUnderscore)"
| "underscore_loop hex sw (c # cs) =
     (if isDigit c \<or> (hex \<and> isHexLetter c) then underscore_loop hex SawDigit cs
      else if c = CHR ''_'' then
        (if sw \<noteq> SawDigit then False else underscore_loop hex SawUnderscore cs)
      else if sw = SawUnderscore then False
      else underscore_loop hex SawOther cs)"

definition underscoreOK :: "string \<Rightarrow> bool" where
  "underscoreOK s0 =
     (let s = (case s0 of c # cs \<Rightarrow> if c = CHR ''-'' \<or> c = CHR ''+'' then cs else s0 | [] \<Rightarrow> s0)
      in case s of
           c # d # r \<Rightarrow>
             if c = CHR ''0'' \<and> lowerc d \<in> {CHR ''b'', CHR ''o'', CHR ''x''}
             then underscore_loop (lowerc d = CHR ''x'') SawDigit r
             else underscore_loop False SawStart s
         | _ \<Rightarrow> underscore_loop False SawStart s)"

text \<open>
  The pieces of \<^verbatim>\<open>readFloat\<close>: the optional sign, the base prefix \<^verbatim>\<open>0x\<close> (which
  needs at least one more character), and the exponent after \<^verbatim>\<open>e\<close> or \<^verbatim>\<open>p\<close>: an
  optional sign and at least one digit. The exponent comes with its sign applied,
  together with the underscore flag and the rest of the string.
\<close>

definition strip_sign :: "string \<Rightarrow> string" where
  "strip_sign s = (case s of c # cs \<Rightarrow> if c = CHR ''+'' \<or> c = CHR ''-'' then cs else s | [] \<Rightarrow> s)"

definition has_hex_prefix :: "string \<Rightarrow> bool" where
  "has_hex_prefix s = (case s of c # d # _ # _ \<Rightarrow> c = CHR ''0'' \<and> lowerc d = CHR ''x'' | _ \<Rightarrow> False)"

definition read_exponent :: "bool \<Rightarrow> string \<Rightarrow> (int \<times> bool \<times> string) option" where
  "read_exponent us0 s4 =
     (case s4 of
        [] \<Rightarrow> None
      | g # s5 \<Rightarrow>
          (let esign = (if g = CHR ''-'' then - 1 else 1 :: int);
               s6 = (if g = CHR ''+'' \<or> g = CHR ''-'' then s5 else s4)
           in case s6 of
                [] \<Rightarrow> None
              | h # _ \<Rightarrow>
                  if \<not> isDigit h then None
                  else (let (e, us, s7) = exponent_loop 0 us0 s6 in Some (e * esign, us, s7))))"

text \<open>
  The end of \<^verbatim>\<open>readFloat\<close>: with \<open>r\<close> left unread, the number of characters read,
  after the check of the underscores in what was read.
\<close>

definition finish_float ::
  "string \<Rightarrow> bool \<Rightarrow> int \<Rightarrow> int \<Rightarrow> bool \<Rightarrow> string \<Rightarrow> (bool \<times> int \<times> int \<times> nat) option" where
  "finish_float s hex m x us r =
     (let n = length s - length r
      in if us \<and> \<not> underscoreOK (take n s) then None else Some (hex, m, x, n))"

text \<open>
  \<^verbatim>\<open>readFloat\<close>: the literal read from the front of \<open>s\<close>, as (hexadecimal?, value of
  the digits, power of the base it is scaled by, number of characters read), or
  \<open>None\<close> when the syntax is wrong. A decimal literal is scaled by a power of 10, a
  hexadecimal one by a power of 2 and must have an exponent.
\<close>

definition readFloat :: "string \<Rightarrow> (bool \<times> int \<times> int \<times> nat) option" where
  "readFloat s =
     (if s = [] then None
      else
        (let s1 = strip_sign s;
             hex = has_hex_prefix s1;
             s2 = (if hex then drop 2 s1 else s1);
             (st, s3) = mantissa_loop hex
                \<lparr>sawdot = False, sawdigits = False, underscores = False, mant = 0, nfrac = 0\<rparr> s2;
             dp = - int (nfrac st) * (if hex then 4 else 1)
         in if \<not> sawdigits st then None
            else
              (case s3 of
                 c # s4 \<Rightarrow>
                   if lowerc c = (if hex then CHR ''p'' else CHR ''e'') then
                     (case read_exponent (underscores st) s4 of
                        None \<Rightarrow> None
                      | Some (ex, us, s7) \<Rightarrow> finish_float s hex (mant st) (dp + ex) us s7)
                   else if hex then None
                   else finish_float s hex (mant st) dp (underscores st) s3
               | [] \<Rightarrow>
                   if hex then None
                   else finish_float s hex (mant st) dp (underscores st) [])))"

text \<open>
  The value \<open>m * b ^ x\<close> rounds to infinity as a \<^verbatim>\<open>float64\<close> when it reaches
  \<open>2 ^ 1024 - 2 ^ 970\<close>, halfway between the largest finite value and \<open>2 ^ 1024\<close>.
\<close>

definition rounds_to_inf :: "bool \<Rightarrow> int \<Rightarrow> int \<Rightarrow> bool" where
  "rounds_to_inf hex m x =
     (let b = (if hex then 2 else 10 :: int); lim = (2 ^ 1024 - 2 ^ 970 :: int)
      in if 0 \<le> x then lim \<le> m * b ^ nat x else lim * b ^ nat (- x) \<le> m)"

definition parseFloat_ok :: "string \<Rightarrow> bool" where
  "parseFloat_ok s =
     (case special s of
        Some n \<Rightarrow> n = length s
      | None \<Rightarrow>
          (case readFloat s of
             None \<Rightarrow> False
           | Some (hex, m, x, n) \<Rightarrow> n = length s \<and> \<not> rounds_to_inf hex m x))"

text \<open>\<^verbatim>\<open>addSuffixIfArgIsNumber\<close>\<close>

definition addSuffixIfArgIsNumber :: "string \<Rightarrow> string \<Rightarrow> string" where
  "addSuffixIfArgIsNumber s suffix = (if parseFloat_ok s then s @ suffix else s)"

section \<open>Parsing a duration\<close>

text \<open>
  \<^verbatim>\<open>time.ParseDuration\<close> of the Go library: an optional sign, then one or more groups
  of a decimal number with an optional fraction and a unit. The values are
  \<^verbatim>\<open>uint64\<close>; the one sum that can leave the range is reduced modulo \<open>2 ^ 64\<close>.
\<close>

datatype error =
    InvalidDuration string
  | MissingUnit string
  | UnknownUnit string string
  | Interrupted

fun leadingInt :: "int \<Rightarrow> string \<Rightarrow> (int \<times> string) option" where
  "leadingInt x [] = Some (x, [])"
| "leadingInt x (c # cs) =
     (if \<not> isDigit c then Some (x, c # cs)
      else if x > 2 ^ 63 div 10 then None
      else (let y = x * 10 + digitVal c in if y > 2 ^ 63 then None else leadingInt y cs))"

text \<open>
  \<^verbatim>\<open>leadingFraction\<close> stops accumulating once the value would overflow but still
  consumes the digits. The scale is \<open>10 ^ k\<close>.
\<close>

fun leadingFraction :: "int \<Rightarrow> nat \<Rightarrow> bool \<Rightarrow> string \<Rightarrow> int \<times> nat \<times> string" where
  "leadingFraction x k ov [] = (x, k, [])"
| "leadingFraction x k ov (c # cs) =
     (if \<not> isDigit c then (x, k, c # cs)
      else if ov then leadingFraction x k ov cs
      else if x > (2 ^ 63 - 1) div 10 then leadingFraction x k True cs
      else (let y = x * 10 + digitVal c
            in if y > 2 ^ 63 then leadingFraction x k True cs
               else leadingFraction y (Suc k) False cs))"

text \<open>
  The fraction's share is computed in \<^verbatim>\<open>float64\<close>:
  \<^verbatim>\<open>uint64(float64(f) * (float64(unit) / scale))\<close>. \<open>fl\<close> rounds a positive rational to
  the nearest value with a 53-bit significand, ties to even; the operands here stay in
  the range of normal numbers.
\<close>

function bitlen :: "int \<Rightarrow> int" where
  "bitlen n = (if n \<le> 0 then 0 else 1 + bitlen (n div 2))"
  by pat_completeness auto
termination
  by (relation "measure nat") auto

declare bitlen.simps [simp del]

definition scale2 :: "rat \<Rightarrow> int \<Rightarrow> rat" where
  "scale2 x e = (if 0 \<le> e then x * 2 ^ nat e else x / 2 ^ nat (- e))"

definition round_even :: "rat \<Rightarrow> int" where
  "round_even q =
     (let n = \<lfloor>q\<rfloor>; r = q - of_int n
      in if r < 1 / 2 then n else if 1 / 2 < r then n + 1 else if even n then n else n + 1)"

definition fl :: "rat \<Rightarrow> rat" where
  "fl x =
     (if x \<le> 0 then 0
      else (let (a, b) = quotient_of x;
                t = bitlen a - bitlen b;
                e = (if scale2 1 t \<le> x then t else t - 1) - 52
            in scale2 (of_int (round_even (scale2 x (- e)))) e))"

definition fraction_ns :: "int \<Rightarrow> int \<Rightarrow> nat \<Rightarrow> int" where
  "fraction_ns f unit k = \<lfloor>fl (fl (of_int f) * fl (of_int unit / 10 ^ k))\<rfloor>"

definition unitMap :: "(string \<times> int) list" where
  "unitMap =
     [(''ns'', 1), (''us'', 1000),
      ([CHR 0xC2, CHR 0xB5, CHR ''s''], 1000), ([CHR 0xCE, CHR 0xBC, CHR ''s''], 1000),
      (''ms'', 1000000), (''s'', 1000000000), (''m'', 60000000000), (''h'', 3600000000000)]"

definition isNumChar :: "char \<Rightarrow> bool" where
  "isNumChar c = (c = CHR ''.'' \<or> isDigit c)"

text \<open>
  The optional fraction \<^verbatim>\<open>(\.[0-9]*)?\<close>: its digits' value, the number of digits
  counted in the scale, the rest, and whether any digit was consumed.
\<close>

definition fraction_part :: "string \<Rightarrow> int \<times> nat \<times> string \<times> bool" where
  "fraction_part s1 =
     (case s1 of
        d # r \<Rightarrow>
          if d = CHR ''.''
          then (let (f, k, s2) = leadingFraction 0 0 False r in (f, k, s2, length r \<noteq> length s2))
          else (0, 0, s1, False)
      | [] \<Rightarrow> (0, 0, s1, False))"

text \<open>One group: number, fraction and unit. The result is the group's value and the rest.\<close>

definition parse_group :: "string \<Rightarrow> string \<Rightarrow> error + (int \<times> string)" where
  "parse_group orig s =
     (case s of
        [] \<Rightarrow> Inl (InvalidDuration orig)
      | c # _ \<Rightarrow>
          if \<not> isNumChar c then Inl (InvalidDuration orig)
          else
            (case leadingInt 0 s of
               None \<Rightarrow> Inl (InvalidDuration orig)
             | Some (v, s1) \<Rightarrow>
                 (let pre = (length s \<noteq> length s1);
                      (f, k, s2, post) = fraction_part s1
                  in if \<not> pre \<and> \<not> post then Inl (InvalidDuration orig)
                     else
                       (let u = takeWhile (\<lambda>c. \<not> isNumChar c) s2;
                            s3 = dropWhile (\<lambda>c. \<not> isNumChar c) s2
                        in if u = [] then Inl (MissingUnit orig)
                           else
                             (case map_of unitMap u of
                                None \<Rightarrow> Inl (UnknownUnit u orig)
                              | Some unit \<Rightarrow>
                                  if v > 2 ^ 63 div unit then Inl (InvalidDuration orig)
                                  else
                                    (let v1 = v * unit;
                                         v2 = (if f > 0 then v1 + fraction_ns f unit k else v1)
                                     in if f > 0 \<and> v2 > 2 ^ 63 then Inl (InvalidDuration orig)
                                        else Inr (v2, s3)))))))"

lemma leadingInt_length:
  "leadingInt x s = Some (v, r) \<Longrightarrow> length r \<le> length s"
  by (induction x s rule: leadingInt.induct) (auto split: if_splits simp: Let_def)

lemma leadingFraction_length:
  "leadingFraction x k ov s = (f, k', r) \<Longrightarrow> length r \<le> length s"
  by (induction x k ov s rule: leadingFraction.induct) (auto split: if_splits simp: Let_def)

lemma fraction_part_length:
  "fraction_part s1 = (f, k, s2, post) \<Longrightarrow> length s2 \<le> length s1"
  by (auto simp: fraction_part_def Let_def split: list.splits if_splits prod.splits
           dest!: leadingFraction_length)

lemma length_dropWhile_less:
  "takeWhile P s \<noteq> [] \<Longrightarrow> length (dropWhile P s) < length s"
  by (cases s) (auto simp: le_imp_less_Suc length_dropWhile_le split: if_splits)

lemma parse_group_length:
  assumes "parse_group orig s = Inr (v, r)"
  shows "length r < length s"
proof -
  from assms obtain c cs where s: "s = c # cs"
    by (cases s) (auto simp: parse_group_def)
  from assms s obtain v0 s1 where li: "leadingInt 0 s = Some (v0, s1)"
    by (auto simp: parse_group_def split: if_splits option.splits)
  have l1: "length s1 \<le> length s" using li by (rule leadingInt_length)
  obtain f k s2 post where fr: "fraction_part s1 = (f, k, s2, post)"
    using prod_cases4 by blast
  have l2: "length s2 \<le> length s1"
    using fr by (rule fraction_part_length)
  have "takeWhile (\<lambda>c. \<not> isNumChar c) s2 \<noteq> [] \<and> r = dropWhile (\<lambda>c. \<not> isNumChar c) s2"
    using assms li fr unfolding parse_group_def s
    by (simp add: Let_def split: if_splits option.splits)
  then have "length r < length s2"
    using length_dropWhile_less by blast
  with l1 l2 show ?thesis by linarith
qed

text \<open>The loop over the groups; \<open>d\<close> is the sum so far.\<close>

function parse_groups :: "string \<Rightarrow> int \<Rightarrow> string \<Rightarrow> error + int" where
  "parse_groups orig d s =
     (if s = [] then Inr d
      else (case parse_group orig s of
              Inl e \<Rightarrow> Inl e
            | Inr (v, r) \<Rightarrow>
                (let d1 = (d + v) mod 2 ^ 64
                 in if d1 > 2 ^ 63 then Inl (InvalidDuration orig)
                    else parse_groups orig d1 r)))"
  by pat_completeness auto
termination
  by (relation "measure (\<lambda>(orig, d, s). length s)") (auto dest: parse_group_length)

declare parse_groups.simps [simp del]

definition ParseDuration :: "string \<Rightarrow> error + Duration" where
  "ParseDuration orig =
     (let neg = (case orig of c # _ \<Rightarrow> c = CHR ''-'' | [] \<Rightarrow> False);
          s = (case orig of c # cs \<Rightarrow> if c = CHR ''-'' \<or> c = CHR ''+'' then cs else orig
               | [] \<Rightarrow> orig)
      in if s = ''0'' then Inr 0
         else if s = [] then Inl (InvalidDuration orig)
         else (case parse_groups orig 0 s of
                 Inl e \<Rightarrow> Inl e
               | Inr d \<Rightarrow>
                   if neg then Inr (wrap64 (- wrap64 d))
                   else if d > 2 ^ 63 - 1 then Inl (InvalidDuration orig)
                   else Inr d))"

section \<open>The command\<close>

text \<open>
  The loop of \<^verbatim>\<open>rootCmd.RunE\<close> over the tokens: a bare number gets the suffix
  \<^verbatim>\<open>s\<close>, the token is parsed, and the first error is returned.
\<close>

fun parse_items :: "string list \<Rightarrow> Duration list \<Rightarrow> error + Duration list" where
  "parse_items [] ds = Inr ds"
| "parse_items (item # items) ds =
     (case ParseDuration (addSuffixIfArgIsNumber item ''s'') of
        Inl e \<Rightarrow> Inl e
      | Inr d \<Rightarrow> parse_items items (ds @ [d]))"

definition parse_durations :: "string \<Rightarrow> error + Duration list" where
  "parse_durations arg = parse_items (splitTimerArgString arg) []"

text \<open>The flags \<^verbatim>\<open>--name\<close>, \<^verbatim>\<open>--fullscreen\<close> and \<^verbatim>\<open>--format\<close>.\<close>

record flags =
  flag_name :: string
  flag_altscreen :: bool
  flag_startTimeFormat :: string

text \<open>
  The session \<^verbatim>\<open>RunE\<close> hands to the program; \<open>p0\<close> is the progress bar that
  \<^verbatim>\<open>progress.New\<close> returns. The first stage is read with \<^verbatim>\<open>durations[0]\<close>.
\<close>

definition initial_model ::
  "progress_Model \<Rightarrow> world \<Rightarrow> flags \<Rightarrow> Duration list \<Rightarrow> panic + (model \<times> world)" where
  "initial_model p0 w fg ds =
     (case go_index ds 0 of
        Inl p \<Rightarrow> Inl p
      | Inr d \<Rightarrow>
          (let interval = timerInterval d;
               (tm, w1) = timer_New d interval w
           in Inr (\<lparr>name = flag_name fg, altscreen = flag_altscreen fg,
                     startTimeFormat = flag_startTimeFormat fg, durations = ds, state = 0,
                     passed = 0, start = now w, timer = tm, progress = p0,
                     quitting = False, interrupting = False\<rparr>, w1)))"

text \<open>
  The event loop delivers the messages in order, each at its own wall-clock time, and
  stops at the handler's \<^verbatim>\<open>tea.Quit\<close>, returning the session as it is then. While
  the messages so far have not stopped it the loop is still waiting (\<open>None\<close>).
\<close>

fun run :: "frame_handler \<Rightarrow> world \<Rightarrow> model \<Rightarrow> (int \<times> msg) list \<Rightarrow> (panic + model) option" where
  "run fh w m [] = None"
| "run fh w m ((t, e) # es) =
     (case Update fh (w\<lparr>now := t\<rparr>) m e of
        Inl p \<Rightarrow> Some (Inl p)
      | Inr (m', c, w') \<Rightarrow> if c = Quit then Some (Inr m') else run fh w' m' es)"

text \<open>
  What \<^verbatim>\<open>RunE\<close> does with the session the loop returned: the error it returns and the
  text it prints.
\<close>

definition finish :: "flags \<Rightarrow> model \<Rightarrow> error option \<times> string" where
  "finish fg m =
     (if interrupting m then (Some Interrupted, [])
      else (None, (if flag_name fg \<noteq> [] then flag_name fg @ '' '' else []) @ ''finished!'' @ [CHR 0x0A]))"

datatype outcome = Waiting | Panicked panic | Returned "error option" string

definition RunE ::
  "frame_handler \<Rightarrow> progress_Model \<Rightarrow> world \<Rightarrow> flags \<Rightarrow> string \<Rightarrow> (int \<times> msg) list \<Rightarrow> outcome" where
  "RunE fh p0 w fg arg evs =
     (case parse_durations arg of
        Inl e \<Rightarrow> Returned (Some e) []
      | Inr ds \<Rightarrow>
          (case initial_model p0 w fg ds of
             Inl p \<Rightarrow> Panicked p
           | Inr (m, w1) \<Rightarrow>
               (case run fh w1 m evs of
                  None \<Rightarrow> Waiting
                | Some (Inl p) \<Rightarrow> Panicked p
                | Some (Inr m') \<Rightarrow> (case finish fg m' of (e, out) \<Rightarrow> Returned e out))))"

text \<open>\<^verbatim>\<open>main\<close> exits with status 1 when the command returned an error.\<close>

definition exit_status :: "error option \<Rightarrow> int" where
  "exit_status e = (if e \<noteq> None then 1 else 0)"

section \<open>Sequences of events\<close>

text \<open>
  The session after the handler has processed the given messages in order, whatever
  commands it returned on the way.
\<close>

fun deliver :: "frame_handler \<Rightarrow> world \<Rightarrow> model \<Rightarrow> (int \<times> msg) list \<Rightarrow> panic + (model \<times> world)" where
  "deliver fh w m [] = Inr (m, w)"
| "deliver fh w m ((t, e) # es) =
     (case Update fh (w\<lparr>now := t\<rparr>) m e of
        Inl p \<Rightarrow> Inl p
      | Inr (m', c, w') \<Rightarrow> deliver fh w' m' es)"

text \<open>
  A tick is one the countdown accepts when the countdown is running with time left and
  the tick carries its identifier and tag: the ticks that the countdown itself asked for.
  \<open>accepted_ticks\<close> says so of every tick of a sequence, each in the session it reaches.
\<close>

definition tick_accepted :: "timer_Model \<Rightarrow> msg \<Rightarrow> bool" where
  "tick_accepted t e =
     (case e of
        TickMsg i g _ \<Rightarrow> Running t \<and> (i = 0 \<or> i = timer_id t) \<and> (g \<le> 0 \<or> g = timer_tag t)
      | _ \<Rightarrow> True)"



section \<open>Properties stated about the session\<close>

text \<open>
  The integer percent as the specification words it: the floor of the elapsed
  milliseconds times 100 over the stage's milliseconds.
\<close>

definition spec_percent :: "Duration \<Rightarrow> Duration \<Rightarrow> int" where
  "spec_percent el d = \<lfloor>(of_int (Milliseconds el * 100) / of_int (Milliseconds d) :: rat)\<rfloor>"


section \<open>Properties stated about the tokens\<close>

text \<open>
  Every unit of \<open>unitMap\<close> contains one of the letters \<^verbatim>\<open>s\<close>, \<^verbatim>\<open>m\<close> and \<^verbatim>\<open>h\<close>.
  \<open>read_upto s r\<close> says that \<open>r\<close> is what is left of \<open>s\<close> after a prefix without such
  a letter. \<open>dec_value\<close> is the value of a string of decimal digits, continuing from
  \<open>acc\<close>.
\<close>

definition unit_letter :: "char \<Rightarrow> bool" where
  "unit_letter c = (c = CHR ''s'' \<or> c = CHR ''m'' \<or> c = CHR ''h'')"

definition read_upto :: "string \<Rightarrow> string \<Rightarrow> bool" where
  "read_upto s r = (\<exists>pre. s = pre @ r \<and> (\<forall>c \<in> set pre. \<not> unit_letter c))"

definition dec_value :: "int \<Rightarrow> string \<Rightarrow> int" where
  "dec_value acc s = foldl (\<lambda>a c. a * 10 + digitVal c) acc s"

section \<open>Example sessions\<close>

text \<open>Concrete values at which the theorems below are instantiated.\<close>

definition no_animation :: frame_handler where
  "no_animation p ms = (p, False)"

definition example_progress :: progress_Model where
  "example_progress =
     \<lparr>width = 40, targetPercent = 0, progress_id = 1, progress_tag = 0,
      percentShown = 0, velocity = 0\<rparr>"

definition example_world :: world where
  "example_world = \<lparr>now = 1000, lastID = 1, winHeight = 24\<rparr>"

definition example_flags :: flags where
  "example_flags = \<lparr>flag_name = ''tea'', flag_altscreen = False, flag_startTimeFormat = []\<rparr>"

text \<open>A session over the given stages, in stage \<open>i\<close> with \<open>el\<close> elapsed and \<open>rem\<close> left.\<close>

definition example_session :: "Duration list \<Rightarrow> int \<Rightarrow> Duration \<Rightarrow> Duration \<Rightarrow> Duration \<Rightarrow> model" where
  "example_session ds i el rem iv =
     \<lparr>name = ''tea'', altscreen = False, startTimeFormat = [], durations = ds, state = i,
      passed = el, start = 1000,
      timer = \<lparr>Timeout = rem, Interval = iv, timer_id = 1, timer_tag = 0, timer_running = True\<rparr>,
      progress = example_progress, quitting = False, interrupting = False\<rparr>"

section \<open>Arithmetic in range\<close>

lemma wrap64_id: "- (2 ^ 63) \<le> x \<Longrightarrow> x < 2 ^ 63 \<Longrightarrow> wrap64 x = x"
  by (simp add: wrap64_def)

lemma quo_nonneg: "0 \<le> a \<Longrightarrow> 0 < b \<Longrightarrow> quo a b = a div b"
  by (simp add: quo_def)

lemma Milliseconds_nonneg: "0 \<le> d \<Longrightarrow> Milliseconds d = d div 1000000"
  by (simp add: Milliseconds_def quo_def)

section \<open>The timeout message\<close>

lemma Update_TimeoutMsg:
  assumes "0 \<le> state m" and "state m < int (length (durations m))"
    and "int (length (durations m)) < 2 ^ 63"
  shows "Update fh w m (TimeoutMsg i) =
     (if state m = int (length (durations m)) - 1
      then Inr (m\<lparr>quitting := True\<rparr>, Quit, w)
      else (let d = durations m ! nat (state m + 1);
                tm = \<lparr>Timeout = d, Interval = timerInterval d, timer_id = wrap64 (lastID w + 1),
                      timer_tag = 0, timer_running = True\<rparr>
            in Inr (m\<lparr>state := state m + 1, passed := 0, start := now w, timer := tm\<rparr>,
                    Send (StartStopMsg (timer_id tm) True),
                    w\<lparr>lastID := wrap64 (lastID w + 1)\<rparr>)))"
proof (cases "state m = int (length (durations m)) - 1")
  case True
  then show ?thesis by (simp add: Update_def)
next
  case False
  with assms have inr: "0 \<le> state m + 1" "state m + 1 < int (length (durations m))"
    by linarith+
  then have w: "wrap64 (state m + 1) = state m + 1"
    using assms(3) by (intro wrap64_id) linarith+
  show ?thesis
    using False inr
    by (simp add: Update_def w go_index_def timer_New_def timer_Start_def Let_def)
qed

section \<open>The handler, message by message\<close>

lemma Update_TickMsg:
  "Update fh w m (TickMsg i g b) =
     (let el = wrap64 (passed m + Interval (timer m))
      in if \<not> (0 \<le> state m \<and> state m < int (length (durations m))) then Inl IndexOutOfRange
         else if Milliseconds (durations m ! nat (state m)) = 0 then Inl DivideByZero
         else (let pct = wrap64 (quo (wrap64 (Milliseconds el * 100))
                                     (Milliseconds (durations m ! nat (state m))))
               in Inr (m\<lparr>passed := el,
                         timer := fst (timer_Update (timer m) (TickMsg i g b)),
                         progress := fst (progress_SetPercent (progress m) (of_int pct / 100))\<rparr>,
                       tea_Batch [snd (progress_SetPercent (progress m) (of_int pct / 100)),
                                  snd (timer_Update (timer m) (TickMsg i g b))],
                       w)))"
  by (simp add: Update_def go_index_def go_div_def Let_def split: prod.splits)

lemma Update_flags:
  assumes "Update fh w m e = Inr (m', c, w')"
  shows "(quitting m \<longrightarrow> quitting m') \<and> (interrupting m \<longrightarrow> interrupting m')
       \<and> (quitting m' \<and> \<not> quitting m \<or> interrupting m' \<and> \<not> interrupting m \<longrightarrow> c = Quit)"
proof (cases e)
  case (TickMsg i g b)
  with assms show ?thesis
    by (auto simp: Update_TickMsg Let_def split: if_splits)
next
  case (WindowSizeMsg wd ht)
  with assms show ?thesis
    by (auto simp: Update_def Let_def progress_SetWidth_def split: if_splits)
next
  case (StartStopMsg i r)
  with assms show ?thesis
    by (auto simp: Update_def Let_def split: prod.splits)
next
  case (TimeoutMsg i)
  with assms show ?thesis
    by (auto simp: Update_def Let_def go_index_def timer_New_def split: if_splits)
next
  case (FrameMsg i g)
  with assms show ?thesis
    by (auto simp: Update_def Let_def split: prod.splits)
next
  case (KeyMsg k)
  with assms show ?thesis
    by (auto simp: Update_def split: if_splits)
next
  case OtherMsg
  with assms show ?thesis
    by (auto simp: Update_def)
qed


lemma tea_Batch_After:
  "tea_Batch [After d x, c] = (if c = NoCmd then After d x else Batch [After d x, c])"
  by (simp add: tea_Batch_def)

lemma timer_Update_not_Quit: "snd (timer_Update t e) \<noteq> Quit"
  by (cases e)
     (auto simp: timer_Update_def timer_tick_def timer_timedout_def tea_Batch_After Let_def)

lemma Update_Quit:
  assumes "Update fh w m e = Inr (m', Quit, w')"
  shows "(\<exists>i. e = TimeoutMsg i) \<and> m' = m\<lparr>quitting := True\<rparr>
       \<or> (\<exists>k. e = KeyMsg k \<and> k \<in> set quitKeys) \<and> m' = m\<lparr>quitting := True\<rparr>
       \<or> e = KeyMsg ''ctrl+c'' \<and> m' = m\<lparr>interrupting := True\<rparr>"
proof (cases e)
  case (TickMsg i g b)
  with assms show ?thesis
    by (auto simp: Update_TickMsg Let_def progress_SetPercent_def progress_nextFrame_def
                   tea_Batch_After split: if_splits)
next
  case (WindowSizeMsg wd ht)
  with assms show ?thesis by (auto simp: Update_def Let_def)
next
  case (StartStopMsg i r)
  with assms timer_Update_not_Quit [of "timer m" e] show ?thesis
    by (auto simp: Update_def Let_def split: prod.splits)
next
  case (TimeoutMsg i)
  with assms show ?thesis
    by (auto simp: Update_def Let_def go_index_def timer_New_def timer_Start_def
             split: if_splits)
next
  case (FrameMsg i g)
  with assms show ?thesis
    by (auto simp: Update_def Let_def progress_nextFrame_def split: prod.splits if_splits)
next
  case (KeyMsg k)
  with assms show ?thesis
    by (auto simp: Update_def key_Matches_def intKeys_def split: if_splits)
next
  case OtherMsg
  with assms show ?thesis by (auto simp: Update_def)
qed


lemma initial_model_fields:
  assumes "initial_model p0 w fg ds = Inr (m, w')"
  shows "ds \<noteq> [] \<and> durations m = ds \<and> state m = 0 \<and> passed m = 0 \<and> \<not> quitting m \<and> \<not> interrupting m
       \<and> Timeout (timer m) = ds ! 0 \<and> Interval (timer m) = timerInterval (ds ! 0)
       \<and> timer_running (timer m) \<and> start m = now w \<and> name m = flag_name fg"
  using assms
  by (auto simp: initial_model_def go_index_def timer_New_def Let_def split: if_splits)

section \<open>The countdown invariant\<close>






section \<open>The percent of a tick\<close>

lemma spec_percent_div:
  "0 \<le> el \<Longrightarrow> 0 \<le> d \<Longrightarrow> spec_percent el d = el div 1000000 * 100 div (d div 1000000)"
  unfolding spec_percent_def Milliseconds_nonneg by (rule floor_divide_of_int_eq)

section \<open>Keys, short stages and runs\<close>

lemma Update_KeyMsg:
  "Update fh w m (KeyMsg k) =
     (if k = ''esc'' \<or> k = ''q'' then Inr (m\<lparr>quitting := True\<rparr>, Quit, w)
      else if k = ''ctrl+c'' then Inr (m\<lparr>interrupting := True\<rparr>, Quit, w)
      else Inr (m, NoCmd, w))"
  by (simp add: Update_def key_Matches_def quitKeys_def intKeys_def)

lemma Update_tick_short_stage:
  assumes "0 \<le> state m" and "state m < int (length (durations m))"
    and "\<bar>durations m ! nat (state m)\<bar> < 1000000"
  shows "Update fh w m (TickMsg i g b) = Inl DivideByZero"
proof -
  from assms(3) have "Milliseconds (durations m ! nat (state m)) = 0"
    by (simp add: Milliseconds_def quo_def)
  with assms(1,2) show ?thesis by (simp add: Update_TickMsg Let_def)
qed

lemma deliver_flags:
  assumes "deliver fh w m evs = Inr (m', w')"
  shows "(quitting m \<longrightarrow> quitting m') \<and> (interrupting m \<longrightarrow> interrupting m')"
  using assms
proof (induction evs arbitrary: w m)
  case Nil
  then show ?case by simp
next
  case (Cons ev evs)
  obtain t e where ev: "ev = (t, e)" by (cases ev)
  from Cons.prems obtain m1 c w1 where
    up: "Update fh (w\<lparr>now := t\<rparr>) m e = Inr (m1, c, w1)"
    by (auto simp: ev split: sum.splits)
  from Cons.prems have "deliver fh w1 m1 evs = Inr (m', w')" by (simp add: ev up)
  from Cons.IH [OF this] Update_flags [OF up] show ?case by blast
qed

text \<open>The loop returns the session of the first message that set a terminal flag.\<close>

lemma run_stops_at_first_terminal:
  assumes "run fh w m evs = Some (Inr m')" and "\<not> quitting m" and "\<not> interrupting m"
  shows "\<exists>pre t e post m0 w0 w1.
           evs = pre @ (t, e) # post \<and> deliver fh w m pre = Inr (m0, w0)
         \<and> \<not> quitting m0 \<and> \<not> interrupting m0
         \<and> Update fh (w0\<lparr>now := t\<rparr>) m0 e = Inr (m', Quit, w1)
         \<and> (quitting m' \<or> interrupting m')"
  using assms
proof (induction evs arbitrary: w m)
  case Nil
  then show ?case by simp
next
  case (Cons ev evs)
  obtain t e where ev: "ev = (t, e)" by (cases ev)
  from Cons.prems(1) obtain m1 c w1 where
    up: "Update fh (w\<lparr>now := t\<rparr>) m e = Inr (m1, c, w1)"
    by (auto simp: ev split: sum.splits)
  show ?case
  proof (cases "c = Quit")
    case True
    with up Cons.prems(1) have m': "m' = m1" by (simp add: ev)
    from up True have q: "Update fh (w\<lparr>now := t\<rparr>) m e = Inr (m', Quit, w1)" by (simp add: m')
    from Update_Quit [OF q] have "quitting m' \<or> interrupting m'" by auto
    with q Cons.prems(2,3) have
      "ev # evs = [] @ (t, e) # evs \<and> deliver fh w m [] = Inr (m, w)
       \<and> \<not> quitting m \<and> \<not> interrupting m
       \<and> Update fh (w\<lparr>now := t\<rparr>) m e = Inr (m', Quit, w1)
       \<and> (quitting m' \<or> interrupting m')"
      by (simp add: ev)
    then show ?thesis by blast
  next
    case False
    with up Cons.prems(1) have r: "run fh w1 m1 evs = Some (Inr m')" by (simp add: ev)
    from Update_flags [OF up] False have nt: "\<not> quitting m1" "\<not> interrupting m1"
      using Cons.prems(2,3) by blast+
    from Cons.IH [OF r nt] obtain pre t' e' post m0 w0 w2 where
      h: "evs = pre @ (t', e') # post" "deliver fh w1 m1 pre = Inr (m0, w0)"
         "\<not> quitting m0" "\<not> interrupting m0"
         "Update fh (w0\<lparr>now := t'\<rparr>) m0 e' = Inr (m', Quit, w2)"
         "quitting m' \<or> interrupting m'"
      by blast
    have "ev # evs = (ev # pre) @ (t', e') # post" using h(1) by simp
    moreover have "deliver fh w m (ev # pre) = Inr (m0, w0)" using h(2) by (simp add: ev up)
    ultimately show ?thesis using h(3-6) by blast
  qed
qed

section \<open>Evaluating the handler on examples\<close>

lemmas handler_defs =
  Update_def go_index_def go_div_def Milliseconds_def quo_def progress_SetPercent_def
  progress_nextFrame_def timer_Update_def Running_def Timedout_def timer_tick_def
  timer_timedout_def tea_Batch_def Let_def Second_def wrap64_def key_Matches_def
  quitKeys_def intKeys_def tick_accepted_def

lemmas example_defs =
  example_session_def example_world_def example_progress_def example_flags_def
  no_animation_def

section \<open>Stage transitions\<close>

text \<open>
  C1. A session in stage \<open>state m\<close> of \<open>n\<close> stages receives the timeout message. In
  the last stage (\<open>state m = n - 1\<close>) it only sets \<open>quitting\<close> and returns the command
  that stops the loop; the stage index is unchanged. Otherwise the index grows by
  exactly one, the elapsed time is reset to 0, the stage's start is the current wall
  clock, and the countdown is a new running timer over the whole of the next stage's
  duration whose interval is computed from that duration; the command returned starts
  this timer.
\<close>

theorem timeout_advances_or_completes:
  assumes "0 \<le> state m" and "state m < int (length (durations m))"
    and "int (length (durations m)) < 2 ^ 63"
  shows "Update fh w m (TimeoutMsg i) =
     (if state m = int (length (durations m)) - 1
      then Inr (m\<lparr>quitting := True\<rparr>, Quit, w)
      else (let d = durations m ! nat (state m + 1);
                tm = \<lparr>Timeout = d, Interval = timerInterval d, timer_id = wrap64 (lastID w + 1),
                      timer_tag = 0, timer_running = True\<rparr>
            in Inr (m\<lparr>state := state m + 1, passed := 0, start := now w, timer := tm\<rparr>,
                    Send (StartStopMsg (timer_id tm) True),
                    w\<lparr>lastID := wrap64 (lastID w + 1)\<rparr>)))"
  using assms by (rule Update_TimeoutMsg)

text \<open>
  The stages \<open>[2s, 3s]\<close>: the first timeout, after 2s in stage 0, leads to stage 1 with
  nothing elapsed and a 3s countdown ticking every 100ms; the second one, in stage 1,
  completes the session.
\<close>

theorem timeout_advances_or_completes_witness:
  "Update no_animation example_world
     (example_session [2000000000, 3000000000] 0 2000000000 0 100000000) (TimeoutMsg 1) =
   Inr ((example_session [2000000000, 3000000000] 1 0 3000000000 100000000)
          \<lparr>timer := \<lparr>Timeout = 3000000000, Interval = 100000000, timer_id = 2, timer_tag = 0,
                      timer_running = True\<rparr>\<rparr>,
        Send (StartStopMsg 2 True), example_world\<lparr>lastID := 2\<rparr>)
   \<and> Update no_animation example_world
     (example_session [2000000000, 3000000000] 1 3000000000 0 100000000) (TimeoutMsg 2) =
   Inr ((example_session [2000000000, 3000000000] 1 3000000000 0 100000000)\<lparr>quitting := True\<rparr>,
        Quit, example_world)"
proof -
  have w: "wrap64 2 = 2" by (simp add: wrap64_def)
  show ?thesis
    using timeout_advances_or_completes
            [of "example_session [2000000000, 3000000000] 0 2000000000 0 100000000"
                no_animation example_world 1]
          timeout_advances_or_completes
            [of "example_session [2000000000, 3000000000] 1 3000000000 0 100000000"
                no_animation example_world 2]
    by (simp add: example_session_def example_world_def timerInterval_def Minute_def
                  Millisecond_def w)
qed

text \<open>
  C5. The tick interval asked for a stage of duration \<open>d\<close> is 100 milliseconds when
  \<open>d\<close> is strictly less than one minute and one second otherwise: 45s and 59.999s
  give 100ms, 60s gives 1s. It is computed from the stage's own duration whenever a stage
  begins: for the first stage when the session is built, and for the next stage when a
  timeout advances the session.
\<close>

theorem tick_interval_from_stage_duration:
  "(d < 60000000000 \<longrightarrow> timerInterval d = 100000000)
   \<and> (60000000000 \<le> d \<longrightarrow> timerInterval d = 1000000000)
   \<and> timerInterval 45000000000 = 100000000
   \<and> timerInterval 59999000000 = 100000000
   \<and> timerInterval 60000000000 = 1000000000
   \<and> (initial_model p0 w fg ds = Inr (m0, w0) \<longrightarrow>
        Interval (timer m0) = timerInterval (durations m0 ! nat (state m0)))
   \<and> (0 \<le> state m \<and> state m + 1 < int (length (durations m))
        \<and> int (length (durations m)) < 2 ^ 63
        \<and> Update fh w1 m (TimeoutMsg i) = Inr (m', c, w') \<longrightarrow>
        state m' = state m + 1
        \<and> Interval (timer m') = timerInterval (durations m' ! nat (state m')))"
proof -
  have a: "Interval (timer m0) = timerInterval (durations m0 ! nat (state m0))"
    if "initial_model p0 w fg ds = Inr (m0, w0)"
    using initial_model_fields [OF that] by simp
  have b: "state m' = state m + 1
      \<and> Interval (timer m') = timerInterval (durations m' ! nat (state m'))"
    if "0 \<le> state m" "state m + 1 < int (length (durations m))"
       "int (length (durations m)) < 2 ^ 63" "Update fh w1 m (TimeoutMsg i) = Inr (m', c, w')"
  proof -
    from that have "state m < int (length (durations m))"
      "state m \<noteq> int (length (durations m)) - 1" by linarith+
    with that(1,3,4) show ?thesis
      by (auto simp: Update_TimeoutMsg Let_def)
  qed
  show ?thesis
    using a b by (simp add: timerInterval_def Minute_def Millisecond_def Second_def)
qed

text \<open>
  Both branches at 45s and 90s, and the stages \<open>[2s, 90s]\<close>: the first stage ticks every
  100ms, the second, after the timeout, every second.
\<close>

theorem tick_interval_from_stage_duration_witness:
  "(45000000000 :: int) < 60000000000 \<and> timerInterval 45000000000 = 100000000
   \<and> (60000000000 :: int) \<le> 90000000000 \<and> timerInterval 90000000000 = 1000000000
   \<and> initial_model example_progress (example_world\<lparr>lastID := 0\<rparr>) example_flags
        [2000000000, 90000000000]
      = Inr (example_session [2000000000, 90000000000] 0 0 2000000000 100000000, example_world)
   \<and> Interval (timer (example_session [2000000000, 90000000000] 0 0 2000000000 100000000))
      = timerInterval 2000000000
   \<and> Update no_animation example_world
        (example_session [2000000000, 90000000000] 0 2000000000 0 100000000) (TimeoutMsg 1)
      = Inr ((example_session [2000000000, 90000000000] 1 0 90000000000 1000000000)
               \<lparr>timer := \<lparr>Timeout = 90000000000, Interval = 1000000000, timer_id = 2,
                           timer_tag = 0, timer_running = True\<rparr>\<rparr>,
             Send (StartStopMsg 2 True), example_world\<lparr>lastID := 2\<rparr>)
   \<and> timerInterval 90000000000 = 1000000000"
proof -
  let ?a = "example_session [2000000000, 90000000000] 0 0 2000000000 100000000"
  let ?b = "example_session [2000000000, 90000000000] 0 2000000000 0 100000000"
  let ?c = "(example_session [2000000000, 90000000000] 1 0 90000000000 1000000000)
               \<lparr>timer := \<lparr>Timeout = 90000000000, Interval = 1000000000, timer_id = 2,
                           timer_tag = 0, timer_running = True\<rparr>\<rparr>"
  have w: "wrap64 2 = 2" "wrap64 1 = 1" by (simp_all add: wrap64_def)
  have init: "initial_model example_progress (example_world\<lparr>lastID := 0\<rparr>) example_flags
        [2000000000, 90000000000] = Inr (?a, example_world)"
    by (simp add: initial_model_def go_index_def timer_New_def example_session_def Let_def
                  example_world_def example_flags_def timerInterval_def Minute_def
                  Millisecond_def w)
  have up: "Update no_animation example_world ?b (TimeoutMsg 1)
      = Inr (?c, Send (StartStopMsg 2 True), example_world\<lparr>lastID := 2\<rparr>)"
    by (simp add: Update_def go_index_def timer_New_def timer_Start_def example_session_def Let_def
                  example_world_def timerInterval_def Minute_def Second_def w)
  show ?thesis
    using tick_interval_from_stage_duration
            [of 45000000000 example_progress "example_world\<lparr>lastID := 0\<rparr>" example_flags
                "[2000000000, 90000000000]" ?a example_world ?b no_animation example_world 1
                ?c "Send (StartStopMsg 2 True)" "example_world\<lparr>lastID := 2\<rparr>"]
          tick_interval_from_stage_duration [of 90000000000]
          init up
    by (simp add: example_session_def)
qed

section \<open>Terminal sessions\<close>

text \<open>
  C2, as the code has it. No message clears \<open>quitting\<close> or \<open>interrupting\<close>, whether
  handled alone or in a sequence, and the handler sets one of them only together with
  the command that stops the loop; so the loop returns the session of the first message
  that set a flag, and every message before it was handled in a session without one: no
  tick is processed after a terminal flag is set. The handler itself does not look at the
  flags: a tick handled in any session, terminal or not, adds the countdown's interval to
  the elapsed time and leaves the flags as they are.
\<close>

theorem terminal_flags_permanent:
  "(Update fh w m e = Inr (m', c, w') \<longrightarrow>
      (quitting m \<longrightarrow> quitting m') \<and> (interrupting m \<longrightarrow> interrupting m')
      \<and> (quitting m' \<and> \<not> quitting m \<or> interrupting m' \<and> \<not> interrupting m \<longrightarrow> c = Quit))
   \<and> (deliver fh w m evs = Inr (m2, w2) \<longrightarrow>
      (quitting m \<longrightarrow> quitting m2) \<and> (interrupting m \<longrightarrow> interrupting m2))
   \<and> (run fh w m evs = Some (Inr m3) \<and> \<not> quitting m \<and> \<not> interrupting m \<longrightarrow>
      (\<exists>pre t e post m0 w0 w1.
           evs = pre @ (t, e) # post \<and> deliver fh w m pre = Inr (m0, w0)
         \<and> \<not> quitting m0 \<and> \<not> interrupting m0
         \<and> Update fh (w0\<lparr>now := t\<rparr>) m0 e = Inr (m3, Quit, w1)
         \<and> (quitting m3 \<or> interrupting m3)))
   \<and> (Update fh w m (TickMsg i g b) = Inr (m4, c4, w4) \<longrightarrow>
      passed m4 = wrap64 (passed m + Interval (timer m))
      \<and> quitting m4 = quitting m \<and> interrupting m4 = interrupting m)"
proof -
  have t: "passed m4 = wrap64 (passed m + Interval (timer m))
      \<and> quitting m4 = quitting m \<and> interrupting m4 = interrupting m"
    if "Update fh w m (TickMsg i g b) = Inr (m4, c4, w4)"
    using that by (auto simp: Update_TickMsg Let_def split: if_splits)
  show ?thesis
    using Update_flags [of fh w m e m' c w'] deliver_flags [of fh w m evs m2 w2]
          run_stops_at_first_terminal [of fh w m evs m3] t
    by blast
qed

text \<open>
  The claim as stated fails: a session that has quit, 1s into a 2s stage, handles a tick
  and comes out with 1.1s elapsed, 0.9s left on the countdown and the bar at 55 percent.
\<close>

theorem tick_after_quit_counterexample:
  "Update no_animation example_world
     ((example_session [2000000000] 0 1000000000 1000000000 100000000)\<lparr>quitting := True\<rparr>)
     (TickMsg 1 0 False)
   = Inr ((example_session [2000000000] 0 1100000000 900000000 100000000)
            \<lparr>progress := example_progress\<lparr>targetPercent := 11 / 20, progress_tag := 1\<rparr>,
             quitting := True\<rparr>,
          Batch [After 16666666 (FrameMsg 1 1), After 100000000 (TickMsg 1 0 False)],
          example_world)
   \<and> (example_session [2000000000] 0 1100000000 900000000 100000000)
         \<lparr>progress := example_progress\<lparr>targetPercent := 11 / 20, progress_tag := 1\<rparr>,
          quitting := True\<rparr>
     \<noteq> (example_session [2000000000] 0 1000000000 1000000000 100000000)\<lparr>quitting := True\<rparr>"
  by (simp add: handler_defs example_defs)


text \<open>
  The key \<^verbatim>\<open>q\<close> sets \<open>quitting\<close> and stops the loop; a run of a tick, \<^verbatim>\<open>q\<close> and a
  further tick returns the session as the key left it; a tick delivered to the session
  that has quit keeps the flag and adds 100ms.
\<close>

theorem terminal_flags_permanent_witness:
  "Update no_animation example_world
     (example_session [2000000000] 0 1000000000 1000000000 100000000) (KeyMsg ''q'')
   = Inr ((example_session [2000000000] 0 1000000000 1000000000 100000000)\<lparr>quitting := True\<rparr>,
          Quit, example_world)
   \<and> run no_animation example_world
        (example_session [2000000000] 0 1000000000 1000000000 100000000)
        [(1001, TickMsg 1 0 False), (1002, KeyMsg ''q''), (1003, TickMsg 1 0 False)]
      = Some (Inr ((example_session [2000000000] 0 1100000000 900000000 100000000)
            \<lparr>progress := example_progress\<lparr>targetPercent := 11 / 20, progress_tag := 1\<rparr>,
             quitting := True\<rparr>))
   \<and> deliver no_animation example_world
        ((example_session [2000000000] 0 1000000000 1000000000 100000000)\<lparr>quitting := True\<rparr>)
        [(1001, TickMsg 1 0 False)]
      = Inr ((example_session [2000000000] 0 1100000000 900000000 100000000)
            \<lparr>progress := example_progress\<lparr>targetPercent := 11 / 20, progress_tag := 1\<rparr>,
             quitting := True\<rparr>, example_world\<lparr>now := 1001\<rparr>)
   \<and> quitting ((example_session [2000000000] 0 1100000000 900000000 100000000)
            \<lparr>progress := example_progress\<lparr>targetPercent := 11 / 20, progress_tag := 1\<rparr>,
             quitting := True\<rparr>)
   \<and> passed ((example_session [2000000000] 0 1100000000 900000000 100000000)
            \<lparr>progress := example_progress\<lparr>targetPercent := 11 / 20, progress_tag := 1\<rparr>,
             quitting := True\<rparr>) = wrap64 (1000000000 + 100000000)"
proof -
  let ?s = "example_session [2000000000] 0 1000000000 1000000000 100000000"
  let ?t = "(example_session [2000000000] 0 1100000000 900000000 100000000)
            \<lparr>progress := example_progress\<lparr>targetPercent := 11 / 20, progress_tag := 1\<rparr>,
             quitting := True\<rparr>"
  let ?c = "Batch [After 16666666 (FrameMsg 1 1), After 100000000 (TickMsg 1 0 False)]"
  have tick: "Update no_animation (example_world\<lparr>now := 1001\<rparr>) (?s\<lparr>quitting := True\<rparr>)
       (TickMsg 1 0 False) = Inr (?t, ?c, example_world\<lparr>now := 1001\<rparr>)"
    by (simp add: handler_defs example_defs)
  have tick0: "Update no_animation (example_world\<lparr>now := 1001\<rparr>) ?s
       (TickMsg 1 0 False) = Inr (?t\<lparr>quitting := False\<rparr>, ?c, example_world\<lparr>now := 1001\<rparr>)"
    by (simp add: handler_defs example_defs)
  have key: "Update no_animation w ?s (KeyMsg ''q'') = Inr (?s\<lparr>quitting := True\<rparr>, Quit, w)" for w
    by (simp add: handler_defs)
  have del: "deliver no_animation example_world (?s\<lparr>quitting := True\<rparr>) [(1001, TickMsg 1 0 False)]
      = Inr (?t, example_world\<lparr>now := 1001\<rparr>)"
    by (simp add: tick)
  have rn: "run no_animation example_world ?s
        [(1001, TickMsg 1 0 False), (1002, KeyMsg ''q''), (1003, TickMsg 1 0 False)]
      = Some (Inr ?t)"
    by (simp add: tick0 Update_KeyMsg)
  show ?thesis
    using terminal_flags_permanent
            [where fh = no_animation and w = example_world and m = "?s\<lparr>quitting := True\<rparr>"
               and e = "KeyMsg ''q''" and m' = "?s\<lparr>quitting := True\<rparr>" and c = Quit
               and w' = example_world and evs = "[(1001, TickMsg 1 0 False)]"
               and ?m2.0 = ?t and ?w2.0 = "example_world\<lparr>now := 1001\<rparr>"]
          terminal_flags_permanent
            [where fh = no_animation and w = "example_world\<lparr>now := 1001\<rparr>"
               and m = "?s\<lparr>quitting := True\<rparr>" and i = 1 and g = 0 and b = False
               and ?m4.0 = ?t and ?c4.0 = ?c and ?w4.0 = "example_world\<lparr>now := 1001\<rparr>"]
          key [of example_world] del rn tick
    by (simp add: example_session_def)
qed

section \<open>How a run ends\<close>



section \<open>The progress fraction\<close>

text \<open>
  C4, as the code has it. A tick in a stage of at least one millisecond, with the
  elapsed time after the tick non-negative and within 64 bits, does not fail; it adds the
  interval to the elapsed time and sets the bar's target to the integer percent
  \<open>floor (elapsed_ms * 100 / stage_ms)\<close>, divided by 100 and clamped to at most 1. While
  the elapsed time does not exceed the stage's duration the target is exactly that
  percent over 100 and lies between 0 and 1.
\<close>

theorem progress_fraction_truncated:
  assumes st: "0 \<le> state m" "state m < int (length (durations m))"
    and d: "1000000 \<le> durations m ! nat (state m)" "durations m ! nat (state m) < 2 ^ 63"
    and el: "0 \<le> passed m + Interval (timer m)" "passed m + Interval (timer m) < 2 ^ 63"
  shows "\<exists>m' c. Update fh w m (TickMsg i g b) = Inr (m', c, w)
      \<and> passed m' = passed m + Interval (timer m)
      \<and> targetPercent (progress m') =
           min 1 (of_int (spec_percent (passed m') (durations m ! nat (state m))) / 100)
      \<and> (passed m' \<le> durations m ! nat (state m) \<longrightarrow>
           targetPercent (progress m') =
             of_int (spec_percent (passed m') (durations m ! nat (state m))) / 100
           \<and> 0 \<le> targetPercent (progress m') \<and> targetPercent (progress m') \<le> 1)"
proof -
  let ?d = "durations m ! nat (state m)"
  let ?el = "passed m + Interval (timer m)"
  let ?dm = "?d div 1000000"
  let ?em = "?el div 1000000"
  have dm: "Milliseconds ?d = ?dm" using d by (simp add: Milliseconds_nonneg)
  have em: "Milliseconds ?el = ?em" using el by (simp add: Milliseconds_nonneg)
  have dmp: "1 \<le> ?dm" using d by linarith
  have emn: "0 \<le> ?em" using el by simp
  have emb: "?em * 100 < 2 ^ 63" using el by linarith
  have w1: "wrap64 ?el = ?el" using el by (intro wrap64_id) linarith+
  have w2: "wrap64 (?em * 100) = ?em * 100" using emn emb by (intro wrap64_id) linarith+
  let ?pct = "?em * 100 div ?dm"
  have q: "quo (?em * 100) ?dm = ?pct" using emn dmp by (intro quo_nonneg) linarith+
  have pn: "0 \<le> ?pct" using emn dmp by (simp add: pos_imp_zdiv_nonneg_iff)
  have "?pct \<le> ?em * 100" using emn dmp
    by (metis div_by_1 mult_nonneg_nonneg zdiv_mono2 zero_less_one zero_le_numeral)
  with emb pn have w3: "wrap64 ?pct = ?pct" by (intro wrap64_id) linarith+
  have sp: "spec_percent ?el ?d = ?pct"
    using el d by (intro spec_percent_div) linarith+
  have tp: "max 0 (min 1 (of_int ?pct / 100 :: rat)) = min 1 (of_int ?pct / 100)"
    using pn by simp
  have le: "of_int ?pct / (100 :: rat) \<le> 1" if "?el \<le> ?d"
  proof -
    from that have "?em \<le> ?dm" by (rule zdiv_mono1) simp
    then have "?em * 100 \<le> 100 * ?dm" by simp
    then have "?pct \<le> 100 * ?dm div ?dm" by (rule zdiv_mono1) (use dmp in linarith)
    with dmp have "?pct \<le> 100" by simp
    then show ?thesis by simp
  qed
  have dm0: "?dm \<noteq> 0" using dmp by linarith
  define r where "r = (of_int ?pct / 100 :: rat)"
  have rn: "0 \<le> r" using pn by (simp add: r_def)
  have rle: "?el \<le> ?d \<Longrightarrow> r \<le> 1" using le by (simp add: r_def)
  have up: "Update fh w m (TickMsg i g b) =
     Inr (m\<lparr>passed := ?el, timer := fst (timer_Update (timer m) (TickMsg i g b)),
            progress := fst (progress_SetPercent (progress m) r)\<rparr>,
          tea_Batch [snd (progress_SetPercent (progress m) r),
                     snd (timer_Update (timer m) (TickMsg i g b))], w)"
    using st dm0 unfolding r_def
    by (simp add: Update_TickMsg Let_def w1 em dm w2 q w3)
  have t: "targetPercent (fst (progress_SetPercent (progress m) r)) = min 1 r"
    using rn by (simp add: progress_SetPercent_def Let_def)
  have rp: "of_int (spec_percent ?el ?d) / 100 = r"
    by (simp only: sp r_def)
  have rp': "of_int (spec_percent ?el ?d) = r * 100"
    by (simp add: rp [symmetric])
  show ?thesis
    unfolding up using rn rle
    by (simp add: rp rp' t)
qed

text \<open>A 10s stage with 3.17s elapsed: the tick brings 3.27s and the bar shows 32 percent.\<close>

theorem progress_fraction_truncated_witness:
  "Update no_animation example_world
     (example_session [10000000000] 0 3170000000 6830000000 100000000) (TickMsg 1 0 False)
   = Inr ((example_session [10000000000] 0 3270000000 6730000000 100000000)
            \<lparr>progress := example_progress\<lparr>targetPercent := 32 / 100, progress_tag := 1\<rparr>\<rparr>,
          Batch [After 16666666 (FrameMsg 1 1), After 100000000 (TickMsg 1 0 False)],
          example_world)
   \<and> spec_percent 3270000000 10000000000 = 32"
proof -
  let ?s = "example_session [10000000000] 0 3170000000 6830000000 100000000"
  have up: "Update no_animation example_world ?s (TickMsg 1 0 False)
   = Inr ((example_session [10000000000] 0 3270000000 6730000000 100000000)
            \<lparr>progress := example_progress\<lparr>targetPercent := 32 / 100, progress_tag := 1\<rparr>\<rparr>,
          Batch [After 16666666 (FrameMsg 1 1), After 100000000 (TickMsg 1 0 False)],
          example_world)"
    by (simp add: handler_defs example_defs)
  have sp: "spec_percent 3270000000 10000000000 = 32"
    by (simp add: spec_percent_div)
  show ?thesis
    using progress_fraction_truncated
            [of ?s no_animation example_world 1 0 False]
          up sp
    by (simp add: example_session_def)
qed

text \<open>
  The claim as stated fails where the elapsed time overshoots the stage: in a 250ms
  stage the third tick brings 300ms, the integer percent is 120, and the fraction
  120/100 is not in the unit interval; the bar's target is 1.
\<close>

theorem progress_fraction_counterexample:
  "Update no_animation example_world
     (example_session [250000000] 0 200000000 50000000 100000000) (TickMsg 1 0 False)
   = Inr ((example_session [250000000] 0 300000000 (- 50000000) 100000000)
            \<lparr>progress := example_progress\<lparr>targetPercent := 1, progress_tag := 1\<rparr>\<rparr>,
          Batch [After 16666666 (FrameMsg 1 1),
                 Batch [After 100000000 (TickMsg 1 0 True), Send (TimeoutMsg 1)]],
          example_world)
   \<and> spec_percent 300000000 250000000 = 120
   \<and> (1 :: rat) \<noteq> of_int (spec_percent 300000000 250000000) / 100"
  by (simp add: handler_defs example_defs spec_percent_div)

section \<open>Stages shorter than a millisecond\<close>

text \<open>
  C9. The token \<^verbatim>\<open>0\<close> is accepted and gives one stage of duration 0. The first tick of
  that session divides by the stage's zero milliseconds: the handler panics, whatever the
  tick carries and whatever would follow.
\<close>

theorem zero_length_stage_tick_panics:
  "parse_durations ''0'' = Inr [0]
   \<and> RunE fh p0 w fg ''0'' ((t, TickMsg i g b) # evs) = Panicked DivideByZero"
proof -
  have p: "parse_durations ''0'' = Inr [0]" by code_simp
  obtain m0 w0 where init: "initial_model p0 w fg [0] = Inr (m0, w0)"
    by (simp add: initial_model_def go_index_def timer_New_def Let_def)
  from initial_model_fields [OF init] have f: "durations m0 = [0]" "state m0 = 0" by simp_all
  have "Update fh (w0\<lparr>now := t\<rparr>) m0 (TickMsg i g b) = Inl DivideByZero"
    by (rule Update_tick_short_stage) (simp_all add: f)
  then show ?thesis
    by (simp add: RunE_def p init)
qed

section \<open>Elapsed time and the stage's duration\<close>




section \<open>The separator's matches\<close>

lemma re_match_spaces: "re_match [(isSpace, Star)] s = Some (length (takeWhile isSpace s))"
  by (induction s) auto

text \<open>
  The separator's match at the front of a string: the run of whitespace there, then a
  comma or hyphen and the whitespace after it; failing that, the run of whitespace alone
  if there is one.
\<close>

lemma re_match_TIMER_ARG_SEP:
  "re_match TIMER_ARG_SEP s =
     (let w = takeWhile isSpace s; r = dropWhile isSpace s
      in case r of
           c # r' \<Rightarrow>
             if c = CHR '','' \<or> c = CHR ''-''
             then Some (length w + 1 + length (takeWhile isSpace r'))
             else if w \<noteq> [] then Some (length w) else None
         | [] \<Rightarrow> if w \<noteq> [] then Some (length w) else None)"
proof (induction s)
  case Nil
  then show ?case by (simp add: TIMER_ARG_SEP_def)
next
  case (Cons c cs)
  have step: "re_match TIMER_ARG_SEP (c # cs) =
     (if isSpace c
      then (case re_match TIMER_ARG_SEP cs of
              Some n \<Rightarrow> Some (Suc n)
            | None \<Rightarrow> Some (Suc (length (takeWhile isSpace cs))))
      else if isSepChar c then Some (Suc (length (takeWhile isSpace cs))) else None)"
  proof (cases "isSpace c")
    case True
    then have "isSepChar c" by (simp add: isSepChar_def)
    with True show ?thesis
      by (simp add: TIMER_ARG_SEP_def re_match_spaces split: option.splits)
  next
    case False
    then show ?thesis
      by (simp add: TIMER_ARG_SEP_def re_match_spaces)
  qed
  show ?case
  proof (cases "isSpace c")
    case True
    define w where "w = takeWhile isSpace cs"
    define r where "r = dropWhile isSpace cs"
    have ih: "re_match TIMER_ARG_SEP cs =
        (case r of
           c # r' \<Rightarrow>
             if c = CHR '','' \<or> c = CHR ''-''
             then Some (length w + 1 + length (takeWhile isSpace r'))
             else if w \<noteq> [] then Some (length w) else None
         | [] \<Rightarrow> if w \<noteq> [] then Some (length w) else None)"
      unfolding w_def r_def using Cons.IH by (simp only: Let_def)
    have goal: "re_match TIMER_ARG_SEP (c # cs) =
        (case r of
           d # r' \<Rightarrow>
             if d = CHR '','' \<or> d = CHR ''-''
             then Some (length (c # w) + 1 + length (takeWhile isSpace r'))
             else Some (length (c # w))
         | [] \<Rightarrow> Some (length (c # w)))"
      unfolding step ih w_def [symmetric] using True
      by (cases r; cases "w = []") simp_all
    from True show ?thesis
      unfolding goal w_def r_def by (simp add: Let_def)
  next
    case False
    then show ?thesis
      unfolding step by (simp add: Let_def isSepChar_def)
  qed
qed

lemma re_match_sep_None: "\<not> isSepChar c \<Longrightarrow> re_match TIMER_ARG_SEP (c # cs) = None"
  by (simp add: re_match_TIMER_ARG_SEP isSepChar_def)

lemma re_match_sep_Some:
  "isSepChar c \<Longrightarrow> \<exists>n. re_match TIMER_ARG_SEP (c # cs) = Some (Suc n)"
  by (cases "isSpace c")
     (simp_all add: re_match_TIMER_ARG_SEP isSepChar_def Let_def split: list.splits)

lemma re_split_no_sep_chars:
  assumes "\<forall>c \<in> set acc. \<not> isSepChar c"
  shows "\<forall>tok \<in> set (re_split TIMER_ARG_SEP acc s). \<forall>c \<in> set tok. \<not> isSepChar c"
  using assms
proof (induction s arbitrary: acc rule: length_induct)
  case (1 s)
  show ?case
  proof (cases s)
    case Nil
    with "1.prems" show ?thesis by simp
  next
    case (Cons c cs)
    show ?thesis
    proof (cases "isSepChar c")
      case True
      then obtain n where n: "re_match TIMER_ARG_SEP (c # cs) = Some (Suc n)"
        using re_match_sep_Some by blast
      have "length (drop n cs) < length s" by (simp add: Cons)
      then have
        "\<forall>tok \<in> set (re_split TIMER_ARG_SEP [] (drop n cs)). \<forall>c \<in> set tok. \<not> isSepChar c"
        using "1.IH" [rule_format, of "drop n cs" "[]"] by simp
      with "1.prems" show ?thesis by (simp add: Cons n)
    next
      case False
      then have n: "re_match TIMER_ARG_SEP (c # cs) = None" by (rule re_match_sep_None)
      have "length cs < length s" by (simp add: Cons)
      moreover have "\<forall>x \<in> set (c # acc). \<not> isSepChar x" using False "1.prems" by simp
      ultimately have
        "\<forall>tok \<in> set (re_split TIMER_ARG_SEP (c # acc) cs). \<forall>c \<in> set tok. \<not> isSepChar c"
        using "1.IH" by blast
      then show ?thesis by (simp add: Cons n)
    qed
  qed
qed

lemma re_split_not_Nil: "re_split p acc s \<noteq> []"
proof (induction s arbitrary: acc rule: length_induct)
  case (1 s)
  show ?case
  proof (cases s)
    case Nil
    then show ?thesis by simp
  next
    case (Cons c cs)
    have "re_split p (c # acc) cs \<noteq> []" using "1.IH" by (simp add: Cons)
    then show ?thesis
      by (simp add: Cons split: option.splits nat.splits)
  qed
qed

lemma re_split_token:
  assumes "\<forall>c \<in> set a. \<not> isSepChar c"
  shows "re_split TIMER_ARG_SEP acc (a @ s) = re_split TIMER_ARG_SEP (rev a @ acc) s"
  using assms
proof (induction a arbitrary: acc)
  case Nil
  then show ?case by simp
next
  case (Cons c a)
  then have "re_match TIMER_ARG_SEP (c # a @ s) = None"
    by (simp add: re_match_sep_None)
  with Cons show ?case by simp
qed

lemma re_split_last_token:
  assumes "\<forall>c \<in> set b. \<not> isSepChar c"
  shows "re_split TIMER_ARG_SEP [] b = [b]"
  using re_split_token [OF assms, of "[]" "[]"] by simp

lemma re_match_le: "re_match p s = Some n \<Longrightarrow> n \<le> length s"
  by (induction p s arbitrary: n rule: re_match.induct)
     (auto split: if_splits option.splits)

lemma re_split_at_match:
  assumes "re_match p s = Some (Suc n)"
  shows "re_split p acc s = rev acc # re_split p [] (drop (Suc n) s)"
proof (cases s)
  case Nil
  with assms re_match_le [of p s "Suc n"] show ?thesis by simp
next
  case (Cons c cs)
  with assms show ?thesis by simp
qed

lemma not_space_comma_hyphen: "\<not> isSpace (CHR '','')" "\<not> isSpace (CHR ''-'')"
  by (simp_all add: isSpace_def)

lemma spaces_then:
  assumes "\<forall>c \<in> set w. isSpace c" and "s = [] \<or> \<not> isSpace (hd s)"
  shows "takeWhile isSpace (w @ s) = w" and "dropWhile isSpace (w @ s) = s"
proof -
  from assms(2) have t: "takeWhile isSpace s = []" and d: "dropWhile isSpace s = s"
    by (cases s; simp)+
  from assms(1) show "takeWhile isSpace (w @ s) = w"
    by (simp add: takeWhile_append2 t)
  from assms(1) show "dropWhile isSpace (w @ s) = s"
    by (simp add: dropWhile_append2 d)
qed

lemma re_match_punct_separator:
  assumes "\<forall>c \<in> set w1. isSpace c" and "\<forall>c \<in> set w2. isSpace c"
    and "c0 = CHR '','' \<or> c0 = CHR ''-''" and "s = [] \<or> \<not> isSpace (hd s)"
  shows "re_match TIMER_ARG_SEP (w1 @ c0 # w2 @ s) = Some (Suc (length w1 + length w2))"
proof -
  from assms(3) have ns: "\<not> isSpace c0" using not_space_comma_hyphen by blast
  then have "c0 # w2 @ s = [] \<or> \<not> isSpace (hd (c0 # w2 @ s))" by simp
  from spaces_then [OF assms(1) this] spaces_then(1) [OF assms(2,4)] assms(3)
  show ?thesis by (simp add: re_match_TIMER_ARG_SEP Let_def)
qed

lemma re_match_space_separator:
  assumes "\<forall>c \<in> set w1. isSpace c" and "w1 \<noteq> []" and "s = [] \<or> \<not> isSepChar (hd s)"
  shows "re_match TIMER_ARG_SEP (w1 @ s) = Some (length w1)"
proof -
  from assms(3) have "s = [] \<or> \<not> isSpace (hd s)" by (auto simp: isSepChar_def)
  from spaces_then [OF assms(1) this]
  have t: "takeWhile isSpace (w1 @ s) = w1" and d: "dropWhile isSpace (w1 @ s) = s" .
  show ?thesis
    unfolding re_match_TIMER_ARG_SEP Let_def t d using assms(2,3)
    by (cases s) (auto simp: isSepChar_def)
qed

lemma re_split_punct_separator:
  assumes "\<forall>c \<in> set w1. isSpace c" and "\<forall>c \<in> set w2. isSpace c"
    and "c0 = CHR '','' \<or> c0 = CHR ''-''" and "s = [] \<or> \<not> isSpace (hd s)"
  shows "re_split TIMER_ARG_SEP acc (w1 @ c0 # w2 @ s) = rev acc # re_split TIMER_ARG_SEP [] s"
  using re_split_at_match [OF re_match_punct_separator [OF assms], of acc]
  by simp

lemma re_split_space_separator:
  assumes "\<forall>c \<in> set w1. isSpace c" and "w1 \<noteq> []" and "s = [] \<or> \<not> isSepChar (hd s)"
  shows "re_split TIMER_ARG_SEP acc (w1 @ s) = rev acc # re_split TIMER_ARG_SEP [] s"
proof -
  from assms(2) obtain n where n: "length w1 = Suc n" by (cases w1) auto
  from re_match_space_separator [OF assms] have "re_match TIMER_ARG_SEP (w1 @ s) = Some (Suc n)"
    by (simp add: n)
  from re_split_at_match [OF this, of acc] show ?thesis by (simp add: n [symmetric])
qed

lemma no_sep_head: "\<forall>c \<in> set b. \<not> isSepChar c \<Longrightarrow> b = [] \<or> \<not> isSepChar (hd b)"
  by (cases b) auto

lemma no_sep_head_space: "\<forall>c \<in> set b. \<not> isSepChar c \<Longrightarrow> b = [] \<or> \<not> isSpace (hd b)"
  by (cases b) (auto simp: isSepChar_def)

lemma split_one_punct:
  assumes "\<forall>c \<in> set a. \<not> isSepChar c" and "\<forall>c \<in> set b. \<not> isSepChar c"
    and "\<forall>c \<in> set w1. isSpace c" and "\<forall>c \<in> set w2. isSpace c"
    and "c0 = CHR '','' \<or> c0 = CHR ''-''"
  shows "splitTimerArgString (a @ w1 @ c0 # w2 @ b) = [a, b]"
  unfolding splitTimerArgString_def
  by (simp add: re_split_token [OF assms(1)]
        re_split_punct_separator [OF assms(3,4,5) no_sep_head_space [OF assms(2)]]
        re_split_last_token [OF assms(2)])

lemma split_one_space:
  assumes "\<forall>c \<in> set a. \<not> isSepChar c" and "\<forall>c \<in> set b. \<not> isSepChar c"
    and "\<forall>c \<in> set w1. isSpace c" and "w1 \<noteq> []"
  shows "splitTimerArgString (a @ w1 @ b) = [a, b]"
  unfolding splitTimerArgString_def
  by (simp add: re_split_token [OF assms(1)]
        re_split_space_separator [OF assms(3,4) no_sep_head [OF assms(2)]]
        re_split_last_token [OF assms(2)])

lemma split_two_punct:
  assumes "\<forall>c \<in> set a. \<not> isSepChar c" and "\<forall>c \<in> set b. \<not> isSepChar c"
    and "\<forall>c \<in> set w1. isSpace c" and "\<forall>c \<in> set w2. isSpace c" and "\<forall>c \<in> set w3. isSpace c"
    and "c0 = CHR '','' \<or> c0 = CHR ''-''" and "c1 = CHR '','' \<or> c1 = CHR ''-''"
  shows "splitTimerArgString (a @ w1 @ c0 # w2 @ c1 # w3 @ b) = [a, [], b]"
proof -
  from assms(7) have "c1 # w3 @ b = [] \<or> \<not> isSpace (hd (c1 # w3 @ b))"
    using not_space_comma_hyphen by auto
  from re_split_punct_separator [OF assms(3,4,6) this]
  have first: "re_split TIMER_ARG_SEP acc (w1 @ c0 # w2 @ c1 # w3 @ b)
      = rev acc # re_split TIMER_ARG_SEP [] (c1 # w3 @ b)" for acc .
  have "\<forall>c \<in> set ([] :: string). isSpace c" by simp
  from re_split_punct_separator [OF this assms(5,7) no_sep_head_space [OF assms(2)]]
  have second: "re_split TIMER_ARG_SEP [] (c1 # w3 @ b) = [] # re_split TIMER_ARG_SEP [] b"
    by (simp del: re_split.simps)
  show ?thesis
    unfolding splitTimerArgString_def
    by (simp del: re_split.simps
             add: re_split_token [OF assms(1)] first second re_split_last_token [OF assms(2)])
qed

section \<open>What a number is made of\<close>

lemma read_upto_refl: "read_upto s s"
  by (simp add: read_upto_def)

lemma read_upto_trans: "read_upto s r \<Longrightarrow> read_upto r q \<Longrightarrow> read_upto s q"
  unfolding read_upto_def
proof -
  assume "\<exists>pre. s = pre @ r \<and> (\<forall>c \<in> set pre. \<not> unit_letter c)"
    and "\<exists>pre. r = pre @ q \<and> (\<forall>c \<in> set pre. \<not> unit_letter c)"
  then obtain p1 p2 where "s = p1 @ r" "\<forall>c \<in> set p1. \<not> unit_letter c"
    "r = p2 @ q" "\<forall>c \<in> set p2. \<not> unit_letter c" by blast
  then have "s = (p1 @ p2) @ q \<and> (\<forall>c \<in> set (p1 @ p2). \<not> unit_letter c)" by auto
  then show "\<exists>pre. s = pre @ q \<and> (\<forall>c \<in> set pre. \<not> unit_letter c)" by blast
qed

lemma read_upto_Cons: "\<not> unit_letter c \<Longrightarrow> read_upto cs r \<Longrightarrow> read_upto (c # cs) r"
  unfolding read_upto_def
  by (metis append_Cons set_ConsD)

lemma read_upto_length: "read_upto s r \<Longrightarrow> length r \<le> length s"
  by (auto simp: read_upto_def)

lemma read_upto_all: "read_upto s r \<Longrightarrow> length s - length r = length s \<Longrightarrow> s \<noteq> [] \<Longrightarrow>
  \<forall>c \<in> set s. \<not> unit_letter c"
  by (auto simp: read_upto_def)

lemma digit_not_unit: "isDigit c \<Longrightarrow> \<not> unit_letter c"
  by (auto simp: isDigit_def unit_letter_def less_eq_char_def)

lemma hex_letter_not_unit: "isHexLetter c \<Longrightarrow> \<not> unit_letter c"
  by (auto simp: isHexLetter_def lowerc_def unit_letter_def less_eq_char_def)

lemma lowerc_not_unit:
  "lowerc c \<in> set ''infinityxpea'' \<Longrightarrow> \<not> unit_letter c"
  by (auto simp: lowerc_def unit_letter_def less_eq_char_def split: if_splits)

lemma mantissa_loop_read: "mantissa_loop hex st s = (st', r) \<Longrightarrow> read_upto s r"
proof (induction hex st s rule: mantissa_loop.induct)
  case (1 hex st)
  then show ?case by (simp add: read_upto_refl)
next
  case (2 hex st c cs)
  show ?case
  proof (cases "r = c # cs")
    case True
    then show ?thesis by (simp add: read_upto_refl)
  next
    case False
    with "2.prems" have nu: "\<not> unit_letter c"
      by (auto simp: unit_letter_def digit_not_unit hex_letter_not_unit split: if_splits
               dest: digit_not_unit hex_letter_not_unit)
    from False "2.prems" "2.IH" have "read_upto cs r"
      by (auto split: if_splits)
    with nu show ?thesis by (rule read_upto_Cons)
  qed
qed

lemma exponent_loop_read: "exponent_loop e us s = (e', us', r) \<Longrightarrow> read_upto s r"
proof (induction e us s rule: exponent_loop.induct)
  case (1 e us)
  then show ?case by (simp add: read_upto_refl)
next
  case (2 e us c cs)
  show ?case
  proof (cases "r = c # cs")
    case True
    then show ?thesis by (simp add: read_upto_refl)
  next
    case False
    with "2.prems" have nu: "\<not> unit_letter c"
      by (auto simp: unit_letter_def split: if_splits dest: digit_not_unit)
    from False "2.prems" "2.IH" have "read_upto cs r"
      by (auto split: if_splits)
    with nu show ?thesis by (rule read_upto_Cons)
  qed
qed

lemma strip_sign_read: "read_upto s (strip_sign s)"
proof (cases s)
  case Nil
  then show ?thesis by (simp add: strip_sign_def read_upto_refl)
next
  case (Cons c cs)
  show ?thesis
  proof (cases "c = CHR ''+'' \<or> c = CHR ''-''")
    case True
    then have "\<not> unit_letter c" by (auto simp: unit_letter_def)
    then have "read_upto (c # cs) cs" using read_upto_refl by (rule read_upto_Cons)
    with True show ?thesis by (simp add: strip_sign_def Cons)
  next
    case False
    then show ?thesis by (simp add: strip_sign_def Cons read_upto_refl)
  qed
qed

lemma hex_prefix_read: "has_hex_prefix s \<Longrightarrow> read_upto s (drop 2 s)"
proof -
  assume h: "has_hex_prefix s"
  then obtain c d r where s: "s = c # d # r" and c: "c = CHR ''0''" and d: "lowerc d = CHR ''x''"
    by (auto simp: has_hex_prefix_def split: list.splits)
  from c have "\<not> unit_letter c" by (simp add: unit_letter_def)
  moreover from d have "\<not> unit_letter d" by (intro lowerc_not_unit) simp
  ultimately have "read_upto (c # d # r) r"
    using read_upto_refl read_upto_Cons by blast
  then show ?thesis by (simp add: s)
qed

lemma read_exponent_read:
  assumes "read_exponent us0 s4 = Some (ex, us, s7)"
  shows "read_upto s4 s7"
proof -
  from assms obtain g s5 where s4: "s4 = g # s5"
    by (cases s4) (auto simp: read_exponent_def)
  define s6 where "s6 = (if g = CHR ''+'' \<or> g = CHR ''-'' then s5 else s4)"
  have a: "read_upto s4 s6"
  proof (cases "g = CHR ''+'' \<or> g = CHR ''-''")
    case True
    then have "\<not> unit_letter g" by (auto simp: unit_letter_def)
    then have "read_upto (g # s5) s5" using read_upto_refl by (rule read_upto_Cons)
    with True show ?thesis by (simp add: s6_def s4)
  next
    case False
    then show ?thesis by (simp add: s6_def read_upto_refl)
  qed
  from assms obtain e where "exponent_loop 0 us0 s6 = (e, us, s7)"
    unfolding read_exponent_def s4 s6_def
    by (auto simp: Let_def split: list.splits if_splits prod.splits)
  then have "read_upto s6 s7" by (rule exponent_loop_read)
  with a show ?thesis by (rule read_upto_trans)
qed

lemma finish_float_n:
  "finish_float s hex m x us r = Some (hex', m', x', n) \<Longrightarrow> n = length s - length r"
  by (auto simp: finish_float_def Let_def split: if_splits)

lemma readFloat_read:
  assumes "readFloat s = Some (hex, m, x, n)"
  shows "\<exists>r. read_upto s r \<and> n = length s - length r"
proof -
  from assms have ne: "s \<noteq> []" by (auto simp: readFloat_def)
  define s1 where "s1 = strip_sign s"
  define hx where "hx = has_hex_prefix s1"
  define s2 where "s2 = (if hx then drop 2 s1 else s1)"
  obtain st s3 where ml: "mantissa_loop hx
      \<lparr>sawdot = False, sawdigits = False, underscores = False, mant = 0, nfrac = 0\<rparr> s2 = (st, s3)"
    by (cases "mantissa_loop hx
      \<lparr>sawdot = False, sawdigits = False, underscores = False, mant = 0, nfrac = 0\<rparr> s2")
  have "read_upto s s1" unfolding s1_def by (rule strip_sign_read)
  moreover have "read_upto s1 s2"
    unfolding s2_def hx_def by (simp add: hex_prefix_read read_upto_refl)
  moreover have "read_upto s2 s3" using ml by (rule mantissa_loop_read)
  ultimately have r3: "read_upto s s3" using read_upto_trans by blast
  note defs = readFloat_def s2_def hx_def s1_def
  show ?thesis
  proof (cases s3)
    case Nil
    with assms ne ml have "n = length s - length s3"
      unfolding defs by (auto simp: Let_def split: if_splits dest: finish_float_n)
    with r3 show ?thesis by blast
  next
    case (Cons c s4)
    show ?thesis
    proof (cases "lowerc c = (if hx then CHR ''p'' else CHR ''e'')")
      case True
      with assms ne ml Cons obtain ex us s7 x' where
        re: "read_exponent (underscores st) s4 = Some (ex, us, s7)"
        and ff: "finish_float s hx (mant st) x' us s7 = Some (hex, m, x, n)"
        unfolding defs by (auto simp: Let_def split: if_splits option.splits)
      from True have "\<not> unit_letter c" by (intro lowerc_not_unit) (simp split: if_splits)
      then have "read_upto (c # s4) s4" using read_upto_refl by (rule read_upto_Cons)
      with r3 Cons have "read_upto s s4" using read_upto_trans by blast
      with read_exponent_read [OF re] have "read_upto s s7" using read_upto_trans by blast
      with finish_float_n [OF ff] show ?thesis by blast
    next
      case False
      with assms ne ml Cons have "n = length s - length s3"
        unfolding defs by (auto simp: Let_def split: if_splits dest: finish_float_n)
      with r3 show ?thesis by blast
    qed
  qed
qed

lemma common_prefix_chars:
  "n \<le> commonPrefixLenIgnoreCase s q \<Longrightarrow> \<forall>c \<in> set (take n s). lowerc c \<in> set q"
proof (induction s q arbitrary: n rule: commonPrefixLenIgnoreCase.induct)
  case (1 c cs q qs)
  then show ?case by (cases n) (auto split: if_splits)
qed simp_all

lemma special_inf_chars:
  assumes "special_inf k s = Some (k + length s)"
  shows "\<forall>c \<in> set s. \<not> unit_letter c"
proof -
  from assms have "length s \<le> commonPrefixLenIgnoreCase s ''infinity''"
    by (auto simp: special_inf_def Let_def split: if_splits)
  from common_prefix_chars [OF this] have "\<forall>c \<in> set s. lowerc c \<in> set ''infinity''" by simp
  then show ?thesis by (auto intro!: lowerc_not_unit)
qed

lemma special_chars:
  assumes "special s = Some (length s)"
  shows "\<forall>c \<in> set s. \<not> unit_letter c"
proof -
  from assms obtain c cs where s: "s = c # cs" by (cases s) (auto simp: special_def)
  consider (sign) "c = CHR ''+'' \<or> c = CHR ''-''" | (inf) "c = CHR ''i'' \<or> c = CHR ''I''"
    | (nan) "c = CHR ''n'' \<or> c = CHR ''N''"
    using assms by (auto simp: special_def s split: if_splits)
  then show ?thesis
  proof cases
    case sign
    with assms have "special_inf 1 cs = Some (1 + length cs)" by (auto simp: special_def s)
    from special_inf_chars [OF this] sign show ?thesis by (auto simp: s unit_letter_def)
  next
    case inf
    with assms have "special_inf 0 s = Some (0 + length s)" by (auto simp: special_def s)
    from special_inf_chars [OF this] show ?thesis .
  next
    case nan
    with assms have "commonPrefixLenIgnoreCase s ''nan'' = 3" and "length s = 3"
      by (auto simp: special_def s split: if_splits)
    then have "length s \<le> commonPrefixLenIgnoreCase s ''nan''" by simp
    from common_prefix_chars [OF this] have "\<forall>c \<in> set s. lowerc c \<in> set ''nan''" by simp
    then show ?thesis by (auto intro!: lowerc_not_unit)
  qed
qed

lemma parseFloat_ok_chars:
  assumes "parseFloat_ok s"
  shows "\<forall>c \<in> set s. \<not> unit_letter c"
proof (cases "special s")
  case (Some n)
  with assms have "special s = Some (length s)" by (simp add: parseFloat_ok_def)
  then show ?thesis by (rule special_chars)
next
  case None
  with assms obtain hex m x where rf: "readFloat s = Some (hex, m, x, length s)"
    by (auto simp: parseFloat_ok_def split: option.splits)
  then have ne: "s \<noteq> []" by (auto simp: readFloat_def)
  from readFloat_read [OF rf] obtain r where "read_upto s r" "length s = length s - length r"
    by blast
  with ne show ?thesis using read_upto_all by metis
qed

lemma digit_facts:
  assumes "isDigit c"
  shows "c \<noteq> CHR ''_''" "c \<noteq> CHR ''.''" "c \<noteq> CHR ''+''" "c \<noteq> CHR ''-''"
    "lowerc c = c" "0 \<le> digitVal c" "digitVal c \<le> 9"
proof -
  have i: "(of_char c :: int) = int (of_char c)" by (simp add: of_nat_of_char)
  from assms have n: "48 \<le> (of_char c :: nat)" "(of_char c :: nat) \<le> 57"
    by (simp_all add: isDigit_def less_eq_char_def)
  from n show "0 \<le> digitVal c" "digitVal c \<le> 9"
    unfolding digitVal_def i by linarith+
  from assms show "c \<noteq> CHR ''_''" "c \<noteq> CHR ''.''" "c \<noteq> CHR ''+''" "c \<noteq> CHR ''-''"
    "lowerc c = c"
    by (auto simp: isDigit_def lowerc_def less_eq_char_def)
qed

lemma dec_value_bounds:
  assumes "\<forall>c \<in> set s. isDigit c" and "0 \<le> acc"
  shows "0 \<le> dec_value acc s \<and> dec_value acc s < (acc + 1) * 10 ^ length s"
  using assms
proof (induction s arbitrary: acc)
  case Nil
  then show ?case by (simp add: dec_value_def)
next
  case (Cons c cs)
  from Cons.prems have d: "0 \<le> digitVal c" "digitVal c \<le> 9"
    by (simp_all add: digit_facts)
  let ?a = "acc * 10 + digitVal c"
  from d Cons.prems have a0: "0 \<le> ?a" by simp
  from Cons.IH [OF _ a0] Cons.prems have
    ih: "0 \<le> dec_value ?a cs" "dec_value ?a cs < (?a + 1) * 10 ^ length cs"
    by simp_all
  have "(?a + 1) * 10 ^ length cs \<le> ((acc + 1) * 10) * 10 ^ length cs"
    using d by (intro mult_right_mono) simp_all
  with ih(2) have "dec_value ?a cs < ((acc + 1) * 10) * 10 ^ length cs" by linarith
  also have "((acc + 1) * 10) * 10 ^ length cs = (acc + 1) * 10 ^ length (c # cs)"
    by (simp only: length_Cons power_Suc mult.assoc)
  finally have "dec_value ?a cs < (acc + 1) * 10 ^ length (c # cs)" .
  moreover have "dec_value acc (c # cs) = dec_value ?a cs" by (simp add: dec_value_def)
  ultimately show ?case using ih(1) by simp
qed

lemma mantissa_loop_digits:
  assumes "\<forall>c \<in> set a. isDigit c"
  shows "mantissa_loop False st (a @ r) =
         mantissa_loop False
           (st\<lparr>sawdigits := sawdigits st \<or> a \<noteq> [], mant := dec_value (mant st) a,
               nfrac := nfrac st + (if sawdot st then length a else 0)\<rparr>) r"
  using assms
proof (induction a arbitrary: st)
  case Nil
  then show ?case by (simp add: dec_value_def)
next
  case (Cons c cs)
  then have c: "isDigit c" and cs: "\<forall>c \<in> set cs. isDigit c" by simp_all
  show ?case
    using digit_facts(1,2) [OF c] c
    by (simp add: Cons.IH [OF cs] dec_value_def)
qed

lemma plain_number_chars:
  assumes "\<forall>c \<in> set s. isDigit c \<or> c = CHR ''.''" and "s \<noteq> []"
  shows "special s = None" and "strip_sign s = s" and "\<not> has_hex_prefix s"
proof -
  from assms obtain c cs where s: "s = c # cs" by (cases s) auto
  with assms(1) have c: "isDigit c \<or> c = CHR ''.''" by simp
  then have nc: "c \<noteq> CHR ''+''" "c \<noteq> CHR ''-''" "c \<noteq> CHR ''i''" "c \<noteq> CHR ''I''"
    "c \<noteq> CHR ''n''" "c \<noteq> CHR ''N''"
    by (auto simp: isDigit_def less_eq_char_def)
  then show "special s = None" by (simp add: special_def s)
  from nc show "strip_sign s = s" by (simp add: strip_sign_def s)
  show "\<not> has_hex_prefix s"
  proof (cases cs)
    case Nil
    then show ?thesis by (simp add: has_hex_prefix_def s)
  next
    case (Cons d r)
    with assms(1) s have "isDigit d \<or> d = CHR ''.''" by simp
    then have "lowerc d \<noteq> CHR ''x''"
      by (auto simp: isDigit_def lowerc_def less_eq_char_def)
    then show ?thesis by (simp add: has_hex_prefix_def s Cons split: list.splits)
  qed
qed

lemma float_limit: "(10 :: int) ^ 308 < 2 ^ 1024 - 2 ^ 970"
  by simp

lemma parseFloat_ok_integer:
  assumes da: "\<forall>c \<in> set a. isDigit c" and ne: "a \<noteq> []" and len: "length a \<le> 308"
  shows "parseFloat_ok a"
proof -
  let ?st = "\<lparr>sawdot = False, sawdigits = False, underscores = False, mant = 0, nfrac = 0\<rparr>"
  from da have pc: "\<forall>c \<in> set a. isDigit c \<or> c = CHR ''.''" by simp
  note p = plain_number_chars [OF pc ne]
  have ml: "mantissa_loop False ?st a =
      (?st\<lparr>sawdigits := True, mant := dec_value 0 a\<rparr>, [])"
    using mantissa_loop_digits [OF da, of ?st "[]"] ne by simp
  have rf: "readFloat a = Some (False, dec_value 0 a, 0, length a)"
    using ne by (simp add: readFloat_def p ml finish_float_def)
  from dec_value_bounds [OF da, of 0] have "dec_value 0 a < 10 ^ length a" by simp
  also have "(10 :: int) ^ length a \<le> 10 ^ 308" using len by (intro power_increasing) simp_all
  finally have "dec_value 0 a < 2 ^ 1024 - 2 ^ 970" using float_limit by linarith
  then have "\<not> rounds_to_inf False (dec_value 0 a) 0"
    by (simp add: rounds_to_inf_def Let_def)
  with rf show ?thesis by (simp add: parseFloat_ok_def p)
qed

lemma parseFloat_ok_decimal:
  assumes da: "\<forall>c \<in> set a. isDigit c" and db: "\<forall>c \<in> set b. isDigit c"
    and ne: "a \<noteq> [] \<or> b \<noteq> []" and len: "length a \<le> 308"
  shows "parseFloat_ok (a @ CHR ''.'' # b)"
proof -
  let ?s = "a @ CHR ''.'' # b"
  let ?st = "\<lparr>sawdot = False, sawdigits = False, underscores = False, mant = 0, nfrac = 0\<rparr>"
  let ?m = "dec_value (dec_value 0 a) b"
  from da db have pc: "\<forall>c \<in> set ?s. isDigit c \<or> c = CHR ''.''" by auto
  have sne: "?s \<noteq> []" by simp
  note p = plain_number_chars [OF pc sne]
  have ml: "mantissa_loop False ?st ?s =
      (?st\<lparr>sawdot := True, sawdigits := True, mant := ?m, nfrac := length b\<rparr>, [])"
    using mantissa_loop_digits [OF da, of ?st "CHR ''.'' # b"]
          mantissa_loop_digits [OF db,
             of "?st\<lparr>sawdigits := a \<noteq> [], mant := dec_value 0 a, sawdot := True\<rparr>" "[]"] ne
    by auto
  have rf: "readFloat ?s = Some (False, ?m, - int (length b), length ?s)"
    by (simp add: readFloat_def p ml finish_float_def del: append_is_Nil_conv)
  from dec_value_bounds [OF da, of 0] have a: "0 \<le> dec_value 0 a" "dec_value 0 a + 1 \<le> 10 ^ length a"
    by simp_all
  from dec_value_bounds [OF db a(1)] have "?m < (dec_value 0 a + 1) * 10 ^ length b" by simp
  also have "\<dots> \<le> 10 ^ length a * 10 ^ length b"
    using a(2) by (intro mult_right_mono) simp_all
  also have "\<dots> \<le> (10 :: int) ^ 308 * 10 ^ length b"
    using len by (intro mult_right_mono power_increasing) simp_all
  also have "\<dots> < (2 ^ 1024 - 2 ^ 970) * 10 ^ length b"
    using float_limit by (intro mult_strict_right_mono) simp_all
  finally have lt: "?m < (2 ^ 1024 - 2 ^ 970) * 10 ^ length b" .
  have "\<not> rounds_to_inf False ?m (- int (length b))"
  proof (cases "b = []")
    case True
    with lt show ?thesis by (simp add: rounds_to_inf_def Let_def)
  next
    case False
    with lt show ?thesis by (simp add: rounds_to_inf_def Let_def)
  qed
  with rf show ?thesis by (simp add: parseFloat_ok_def p)
qed

section \<open>Tokens that cannot be parsed\<close>

lemma parseFloat_ok_Nil: "\<not> parseFloat_ok []"
  by (simp add: parseFloat_ok_def special_def readFloat_def)

lemma ParseDuration_Nil: "ParseDuration [] = Inl (InvalidDuration [])"
  by (simp add: ParseDuration_def)

lemma parse_items_length:
  "parse_items toks ds = Inr r \<Longrightarrow> length r = length ds + length toks"
  by (induction toks arbitrary: ds) (auto split: sum.splits)

lemma unit_has_letter: "map_of unitMap u = Some x \<Longrightarrow> \<exists>c \<in> set u. unit_letter c"
proof -
  assume "map_of unitMap u = Some x"
  then have "(u, x) \<in> set unitMap" by (rule map_of_SomeD)
  then have "u \<in> {''ns'', ''us'', [CHR 0xC2, CHR 0xB5, CHR ''s''], [CHR 0xCE, CHR 0xBC, CHR ''s''],
      ''ms'', ''s'', ''m'', ''h''}"
    unfolding unitMap_def by auto
  then have "CHR ''s'' \<in> set u \<or> CHR ''m'' \<in> set u \<or> CHR ''h'' \<in> set u"
    by auto
  then show ?thesis unfolding unit_letter_def by blast
qed

lemma parse_items_Nil_token:
  "parse_items ([] # toks) ds = Inl (InvalidDuration [])"
proof -
  have "addSuffixIfArgIsNumber [] ''s'' = []"
    by (simp add: addSuffixIfArgIsNumber_def parseFloat_ok_Nil)
  then show ?thesis by (simp add: ParseDuration_Nil)
qed

lemma parse_items_empty_token:
  "[] \<in> set toks \<Longrightarrow> \<exists>e. parse_items toks ds = Inl e"
proof (induction toks arbitrary: ds)
  case Nil
  then show ?case by simp
next
  case (Cons tok toks)
  show ?case
  proof (cases "tok = []")
    case True
    then show ?thesis using parse_items_Nil_token by blast
  next
    case False
    with Cons.prems have mem: "[] \<in> set toks" by simp
    show ?thesis
    proof (cases "ParseDuration (addSuffixIfArgIsNumber tok ''s'')")
      case (Inl e)
      then show ?thesis by simp
    next
      case (Inr d)
      from Cons.IH [OF mem, of "ds @ [d]"] Inr show ?thesis by simp
    qed
  qed
qed

lemma unit_token_unchanged:
  assumes "map_of unitMap u = Some x"
  shows "addSuffixIfArgIsNumber (n @ u) suffix = n @ u"
proof -
  from unit_has_letter [OF assms] obtain c where "c \<in> set (n @ u)" "unit_letter c" by auto
  with parseFloat_ok_chars [of "n @ u"] have "\<not> parseFloat_ok (n @ u)" by blast
  then show ?thesis by (simp add: addSuffixIfArgIsNumber_def)
qed

section \<open>Tokenising\<close>

text \<open>
  C6, as the code has it. The argument is cut at every match of one separator: a comma,
  a hyphen or a whitespace character, with the whitespace around it. No token contains a
  separator character. Between two tokens, a run of whitespace with one comma or hyphen
  in it, or a run of whitespace alone, is a single separator and gives the two tokens in
  order. Two commas or hyphens with at most whitespace between them are two separators
  with an empty token between them, and the argument is then rejected. So
  \<^verbatim>\<open>5m, 10m\<close>, \<^verbatim>\<open>5m 10m\<close> and \<^verbatim>\<open>5m-10m\<close> give the stages 5m and 10m, while
  \<^verbatim>\<open>5m,,10m\<close> gives the tokens \<^verbatim>\<open>5m\<close>, the empty token and \<^verbatim>\<open>10m\<close> and fails with
  an invalid-duration error.
\<close>

theorem single_separators_split_tokens:
  "(\<forall>tok \<in> set (splitTimerArgString s). \<forall>c \<in> set tok. \<not> isSepChar c)
   \<and> ((\<forall>c \<in> set a. \<not> isSepChar c) \<and> (\<forall>c \<in> set b. \<not> isSepChar c)
        \<and> (\<forall>c \<in> set w1. isSpace c) \<and> (\<forall>c \<in> set w2. isSpace c) \<and> (\<forall>c \<in> set w3. isSpace c)
        \<and> (c0 = CHR '','' \<or> c0 = CHR ''-'') \<and> (c1 = CHR '','' \<or> c1 = CHR ''-'') \<longrightarrow>
        splitTimerArgString (a @ w1 @ c0 # w2 @ b) = [a, b]
        \<and> (w1 \<noteq> [] \<longrightarrow> splitTimerArgString (a @ w1 @ b) = [a, b])
        \<and> splitTimerArgString (a @ w1 @ c0 # w2 @ c1 # w3 @ b) = [a, [], b]
        \<and> (\<exists>e. parse_durations (a @ w1 @ c0 # w2 @ c1 # w3 @ b) = Inl e))
   \<and> parse_durations ''5m, 10m'' = Inr [300000000000, 600000000000]
   \<and> parse_durations ''5m 10m'' = Inr [300000000000, 600000000000]
   \<and> parse_durations ''5m-10m'' = Inr [300000000000, 600000000000]
   \<and> splitTimerArgString ''5m,,10m'' = [''5m'', [], ''10m'']
   \<and> parse_durations ''5m,,10m'' = Inl (InvalidDuration [])"
proof -
  have g1: "\<forall>tok \<in> set (splitTimerArgString s). \<forall>c \<in> set tok. \<not> isSepChar c"
    unfolding splitTimerArgString_def by (rule re_split_no_sep_chars) simp
  have g2: "splitTimerArgString (a @ w1 @ c0 # w2 @ b) = [a, b]
        \<and> (w1 \<noteq> [] \<longrightarrow> splitTimerArgString (a @ w1 @ b) = [a, b])
        \<and> splitTimerArgString (a @ w1 @ c0 # w2 @ c1 # w3 @ b) = [a, [], b]
        \<and> (\<exists>e. parse_durations (a @ w1 @ c0 # w2 @ c1 # w3 @ b) = Inl e)"
    if h: "\<forall>c \<in> set a. \<not> isSepChar c" "\<forall>c \<in> set b. \<not> isSepChar c"
        "\<forall>c \<in> set w1. isSpace c" "\<forall>c \<in> set w2. isSpace c" "\<forall>c \<in> set w3. isSpace c"
        "c0 = CHR '','' \<or> c0 = CHR ''-''" "c1 = CHR '','' \<or> c1 = CHR ''-''"
  proof -
    have p1: "splitTimerArgString (a @ w1 @ c0 # w2 @ b) = [a, b]"
      using h(1,2,3,4,6) by (rule split_one_punct)
    have p2: "splitTimerArgString (a @ w1 @ b) = [a, b]" if "w1 \<noteq> []"
      using h(1,2,3) that by (rule split_one_space)
    have p3: "splitTimerArgString (a @ w1 @ c0 # w2 @ c1 # w3 @ b) = [a, [], b]"
      using h by (rule split_two_punct)
    have "[] \<in> set [a, [], b]" by simp
    from parse_items_empty_token [OF this, of "[]"]
    have p4: "\<exists>e. parse_durations (a @ w1 @ c0 # w2 @ c1 # w3 @ b) = Inl e"
      by (simp only: parse_durations_def p3)
    from p1 p2 p3 p4 show ?thesis by blast
  qed
  have e1: "parse_durations ''5m, 10m'' = Inr [300000000000, 600000000000]" by code_simp
  have e2: "parse_durations ''5m 10m'' = Inr [300000000000, 600000000000]" by code_simp
  have e3: "parse_durations ''5m-10m'' = Inr [300000000000, 600000000000]" by code_simp
  have e4: "splitTimerArgString ''5m,,10m'' = [''5m'', [], ''10m'']" by code_simp
  have e5: "parse_durations ''5m,,10m'' = Inl (InvalidDuration [])" by code_simp
  show ?thesis
    apply (intro conjI impI)
    subgoal by (rule g1)
    subgoal using g2 by blast
    subgoal using g2 by blast
    subgoal using g2 by blast
    subgoal using g2 by blast
    subgoal by (rule e1)
    subgoal by (rule e2)
    subgoal by (rule e3)
    subgoal by (rule e4)
    subgoal by (rule e5)
    done
qed

text \<open>
  The claim as stated fails on consecutive separators: \<^verbatim>\<open>5m,,10m\<close> has an empty token
  in the middle and does not parse, unlike \<^verbatim>\<open>5m, 10m\<close>.
\<close>

theorem consecutive_separators_counterexample:
  "splitTimerArgString ''5m,,10m'' = [''5m'', [], ''10m'']
   \<and> parse_durations ''5m,,10m'' = Inl (InvalidDuration [])
   \<and> parse_durations ''5m, 10m'' = Inr [300000000000, 600000000000]"
proof -
  have e4: "splitTimerArgString ''5m,,10m'' = [''5m'', [], ''10m'']" by code_simp
  have e5: "parse_durations ''5m,,10m'' = Inl (InvalidDuration [])" by code_simp
  have e1: "parse_durations ''5m, 10m'' = Inr [300000000000, 600000000000]" by code_simp
  from e4 e5 e1 show ?thesis by blast
qed

text \<open>
  The tokens \<^verbatim>\<open>5m\<close> and \<^verbatim>\<open>10m\<close> around a comma within spaces, around two spaces, and
  around a comma and a hyphen.
\<close>

theorem single_separators_split_tokens_witness:
  "splitTimerArgString ''5m , 10m'' = [''5m'', ''10m'']
   \<and> splitTimerArgString ''5m  10m'' = [''5m'', ''10m'']
   \<and> splitTimerArgString ''5m , - 10m'' = [''5m'', [], ''10m'']
   \<and> isSepChar (CHR '','') \<and> isSpace (CHR '' '')"
proof -
  have tok: "(\<forall>c \<in> set ''5m''. \<not> isSepChar c) \<and> (\<forall>c \<in> set ''10m''. \<not> isSepChar c)"
    by (simp add: isSepChar_def isSpace_def)
  have sp: "(\<forall>c \<in> set '' ''. isSpace c) \<and> (\<forall>c \<in> set ''  ''. isSpace c)"
    by (simp add: isSpace_def)
  have cs: "CHR '','' = CHR '','' \<or> CHR '','' = CHR ''-''"
    "CHR ''-'' = CHR '','' \<or> CHR ''-'' = CHR ''-''" by simp_all
  note t1 = single_separators_split_tokens
      [of "[]" "''5m''" "''10m''" "'' ''" "'' ''" "'' ''" "CHR '',''" "CHR ''-''"]
  note t2 = single_separators_split_tokens
      [of "[]" "''5m''" "''10m''" "''  ''" "'' ''" "'' ''" "CHR '',''" "CHR ''-''"]
  from t1 tok sp cs have a1: "splitTimerArgString (''5m'' @ '' '' @ CHR '','' # '' '' @ ''10m'') = [''5m'', ''10m'']"
    by blast
  have ne: "''  '' \<noteq> []" by simp
  from t2 tok sp cs ne have a2: "splitTimerArgString (''5m'' @ ''  '' @ ''10m'') = [''5m'', ''10m'']"
    by blast
  from t1 tok sp cs have a3:
    "splitTimerArgString (''5m'' @ '' '' @ CHR '','' # '' '' @ CHR ''-'' # '' '' @ ''10m'')
       = [''5m'', [], ''10m'']"
    by blast
  have m: "isSepChar (CHR '','') \<and> isSpace (CHR '' '')" by (simp add: isSepChar_def isSpace_def)
  from a1 a2 a3 m show ?thesis by simp
qed

section \<open>Arguments that are rejected\<close>

text \<open>
  C7, as the code has it. Tokenising never gives zero tokens, so a parsed argument has
  at least one stage, one for each token; the empty argument is the single empty token.
  It fails with the invalid-duration error of the parser, as the unparseable \<^verbatim>\<open>abc\<close>
  does: the code has no separate error for an empty specification. Whenever parsing
  fails, the command returns that error at once, whatever messages would have come: no
  session is built, nothing is printed, and the exit status is 1.
\<close>

theorem empty_and_invalid_specs_rejected:
  "splitTimerArgString s \<noteq> []
   \<and> (parse_durations arg = Inr ds \<longrightarrow>
        ds \<noteq> [] \<and> length ds = length (splitTimerArgString arg))
   \<and> splitTimerArgString [] = [[]]
   \<and> parse_durations [] = Inl (InvalidDuration [])
   \<and> parse_durations ''abc'' = Inl (InvalidDuration ''abc'')
   \<and> (parse_durations arg = Inl e \<longrightarrow>
        RunE fh p0 w fg arg evs = Returned (Some e) [] \<and> exit_status (Some e) = 1)"
proof -
  have c1: "splitTimerArgString s \<noteq> []" for s
    by (simp add: splitTimerArgString_def re_split_not_Nil)
  have c2: "ds \<noteq> [] \<and> length ds = length (splitTimerArgString arg)"
    if "parse_durations arg = Inr ds"
  proof -
    from that have "parse_items (splitTimerArgString arg) [] = Inr ds"
      by (simp add: parse_durations_def)
    from parse_items_length [OF this] have "length ds = length (splitTimerArgString arg)"
      by simp
    with c1 [of arg] show ?thesis by auto
  qed
  have c3: "splitTimerArgString [] = [[]]" by (simp add: splitTimerArgString_def)
  have c4: "parse_durations [] = Inl (InvalidDuration [])"
    by (simp only: parse_durations_def c3 parse_items_Nil_token)
  have c5: "parse_durations ''abc'' = Inl (InvalidDuration ''abc'')" by code_simp
  have c6: "RunE fh p0 w fg arg evs = Returned (Some e) [] \<and> exit_status (Some e) = 1"
    if "parse_durations arg = Inl e"
    using that by (simp add: RunE_def exit_status_def)
  show ?thesis
    apply (intro conjI impI)
    subgoal by (rule c1)
    subgoal using c2 by blast
    subgoal using c2 by blast
    subgoal by (rule c3)
    subgoal by (rule c4)
    subgoal by (rule c5)
    subgoal using c6 by blast
    subgoal using c6 by blast
    done
qed

text \<open>
  The claim as stated fails: the empty argument gives one token, not zero, and its error
  is the invalid-duration error, the kind that \<^verbatim>\<open>abc\<close> gets.
\<close>

theorem empty_spec_counterexample:
  "length (splitTimerArgString []) = 1
   \<and> parse_durations [] = Inl (InvalidDuration [])
   \<and> parse_durations ''abc'' = Inl (InvalidDuration ''abc'')"
proof -
  have s: "splitTimerArgString [] = [[]]" by (simp add: splitTimerArgString_def)
  then have l: "length (splitTimerArgString []) = 1" by simp
  have e: "parse_durations [] = Inl (InvalidDuration [])"
    by (simp only: parse_durations_def s parse_items_Nil_token)
  have a: "parse_durations ''abc'' = Inl (InvalidDuration ''abc'')" by code_simp
  from l e a show ?thesis by blast
qed

text \<open>The arguments \<^verbatim>\<open>5m\<close> (one token, one stage), \<^verbatim>\<open>abc\<close> and the empty one.\<close>

theorem empty_and_invalid_specs_rejected_witness:
  "parse_durations ''5m'' = Inr [300000000000]
   \<and> length [300000000000 :: int] = length (splitTimerArgString ''5m'')
   \<and> parse_durations ''abc'' = Inl (InvalidDuration ''abc'')
   \<and> RunE no_animation example_progress example_world example_flags ''abc''
        [(1001, KeyMsg ''q'')] = Returned (Some (InvalidDuration ''abc'')) []
   \<and> exit_status (Some (InvalidDuration ''abc'')) = 1
   \<and> RunE no_animation example_progress example_world example_flags []
        [(1001, KeyMsg ''q'')] = Returned (Some (InvalidDuration [])) []"
proof -
  have p1: "parse_durations ''5m'' = Inr [300000000000]" by code_simp
  have p2: "parse_durations ''abc'' = Inl (InvalidDuration ''abc'')" by code_simp
  note t1 = empty_and_invalid_specs_rejected
      [of "[]" "''5m''" "[300000000000]" "InvalidDuration ''abc''" no_animation example_progress
          example_world example_flags "[(1001, KeyMsg ''q'')]"]
  note t2 = empty_and_invalid_specs_rejected
      [of "[]" "''abc''" "[]" "InvalidDuration ''abc''" no_animation example_progress
          example_world example_flags "[(1001, KeyMsg ''q'')]"]
  note t3 = empty_and_invalid_specs_rejected
      [of "[]" "[]" "[]" "InvalidDuration []" no_animation example_progress
          example_world example_flags "[(1001, KeyMsg ''q'')]"]
  from t1 p1 have a1: "length [300000000000 :: int] = length (splitTimerArgString ''5m'')" by blast
  from t2 p2 have a2: "RunE no_animation example_progress example_world example_flags ''abc''
        [(1001, KeyMsg ''q'')] = Returned (Some (InvalidDuration ''abc'')) []
      \<and> exit_status (Some (InvalidDuration ''abc'')) = 1" by blast
  from t3 have a3: "RunE no_animation example_progress example_world example_flags []
        [(1001, KeyMsg ''q'')] = Returned (Some (InvalidDuration [])) []" by blast
  from p1 p2 a1 a2 a3 show ?thesis by blast
qed

section \<open>Bare numbers\<close>

text \<open>
  C8. A token that \<^verbatim>\<open>strconv.ParseFloat\<close> accepts gets the suffix \<^verbatim>\<open>s\<close>: so does
  every non-empty string of at most 308 decimal digits, and every decimal with such an
  integer part, a point and digits on at least one side of it. In particular \<^verbatim>\<open>5\<close>
  becomes \<^verbatim>\<open>5s\<close> and parses to the same duration, five seconds. A token that ends in
  a unit of \<open>unitMap\<close> is never accepted as a number and is passed through unchanged,
  whatever the suffix.
\<close>

theorem bare_number_gets_seconds:
  "(parseFloat_ok s \<longrightarrow> addSuffixIfArgIsNumber s ''s'' = s @ ''s'')
   \<and> ((\<forall>c \<in> set a. isDigit c) \<and> (\<forall>c \<in> set b. isDigit c) \<and> length a \<le> 308 \<longrightarrow>
        (a \<noteq> [] \<longrightarrow> addSuffixIfArgIsNumber a ''s'' = a @ ''s'')
        \<and> (a \<noteq> [] \<or> b \<noteq> [] \<longrightarrow>
             addSuffixIfArgIsNumber (a @ CHR ''.'' # b) ''s'' = a @ CHR ''.'' # b @ ''s''))
   \<and> addSuffixIfArgIsNumber ''5'' ''s'' = ''5s''
   \<and> ParseDuration (addSuffixIfArgIsNumber ''5'' ''s'') = ParseDuration ''5s''
   \<and> ParseDuration ''5s'' = Inr 5000000000
   \<and> parse_durations ''5'' = parse_durations ''5s''
   \<and> (map_of unitMap u = Some x \<longrightarrow> addSuffixIfArgIsNumber (n @ u) suffix = n @ u)"
proof -
  have c1: "parseFloat_ok s \<longrightarrow> addSuffixIfArgIsNumber s ''s'' = s @ ''s''"
    by (simp add: addSuffixIfArgIsNumber_def)
  have c2a: "addSuffixIfArgIsNumber a ''s'' = a @ ''s''"
    if "\<forall>c \<in> set a. isDigit c" "length a \<le> 308" "a \<noteq> []"
    using parseFloat_ok_integer [OF that(1,3,2)] by (simp add: addSuffixIfArgIsNumber_def)
  have c2b: "addSuffixIfArgIsNumber (a @ CHR ''.'' # b) ''s'' = a @ CHR ''.'' # b @ ''s''"
    if "\<forall>c \<in> set a. isDigit c" "\<forall>c \<in> set b. isDigit c" "length a \<le> 308" "a \<noteq> [] \<or> b \<noteq> []"
    using parseFloat_ok_decimal [OF that(1,2,4,3)] by (simp add: addSuffixIfArgIsNumber_def)
  have five: "addSuffixIfArgIsNumber ''5'' ''s'' = ''5s''" by code_simp
  have d: "ParseDuration ''5s'' = Inr 5000000000" by code_simp
  have p: "parse_durations ''5'' = parse_durations ''5s''" by code_simp
  have c7: "map_of unitMap u = Some x \<longrightarrow> addSuffixIfArgIsNumber (n @ u) suffix = n @ u"
    using unit_token_unchanged by blast
  have e: "ParseDuration (addSuffixIfArgIsNumber ''5'' ''s'') = ParseDuration ''5s''"
    by (simp only: five)
  show ?thesis
    apply (intro conjI impI)
    subgoal using c1 by blast
    subgoal using c2a by blast
    subgoal using c2b by blast
    subgoal by (rule five)
    subgoal by (rule e)
    subgoal by (rule d)
    subgoal by (rule p)
    subgoal using c7 by blast
    done
qed

text \<open>
  The number \<^verbatim>\<open>1e3\<close>, the integer \<^verbatim>\<open>10\<close>, the decimal \<^verbatim>\<open>10.25\<close>, and the token
  \<^verbatim>\<open>300ms\<close>, which keeps its unit.
\<close>

theorem bare_number_gets_seconds_witness:
  "parseFloat_ok ''1e3'' \<and> addSuffixIfArgIsNumber ''1e3'' ''s'' = ''1e3s''
   \<and> addSuffixIfArgIsNumber ''10'' ''s'' = ''10s''
   \<and> addSuffixIfArgIsNumber ''10.25'' ''s'' = ''10.25s''
   \<and> map_of unitMap ''ms'' = Some 1000000
   \<and> addSuffixIfArgIsNumber ''300ms'' ''s'' = ''300ms''"
proof -
  have ok: "parseFloat_ok ''1e3''" by code_simp
  have dg: "(\<forall>c \<in> set ''10''. isDigit c) \<and> (\<forall>c \<in> set ''25''. isDigit c) \<and> length ''10'' \<le> 308"
    by (simp add: isDigit_def less_eq_char_def)
  have ne: "''10'' \<noteq> []" "''10'' \<noteq> [] \<or> ''25'' \<noteq> []" by simp_all
  have u: "map_of unitMap ''ms'' = Some 1000000" by (simp add: unitMap_def)
  note t = bare_number_gets_seconds
             [of "''1e3''" "''10''" "''25''" "''ms''" 1000000 "''300''" "''s''"]
  from t ok have a1: "addSuffixIfArgIsNumber ''1e3'' ''s'' = ''1e3'' @ ''s''" by blast
  from t dg ne(1) have a2: "addSuffixIfArgIsNumber ''10'' ''s'' = ''10'' @ ''s''" by blast
  from t dg ne(2) have a3:
    "addSuffixIfArgIsNumber (''10'' @ CHR ''.'' # ''25'') ''s'' = ''10'' @ CHR ''.'' # ''25'' @ ''s''"
    by blast
  from t u have a4: "addSuffixIfArgIsNumber (''300'' @ ''ms'') ''s'' = ''300'' @ ''ms''" by blast
  from a1 a2 a3 a4 ok u show ?thesis by simp
qed

end
